theory Spec2Isabelle
  imports Main "HOL-Library.Sublist"
begin

text \<open>
  A model of \<open>ext/nokogumbo/nokogumbo.c\<close>, which turns the output of the Gumbo HTML5
  parser into a Nokogiri document: \<open>find_dummy_key\<close>, \<open>xmlNewProp\<close>,
  \<open>walk_element\<close>, \<open>walk_tree\<close>, \<open>new_html_doc\<close> and \<open>parse\<close>, in the build
  without \<open>NGLIB\<close>, where every DOM operation is a Ruby method call.  The parser and
  the DOM library are outside the repository: the parser's output and the attribute
  methods of the DOM library are parameters, and node construction, child append and
  the document constructor are modelled from the specification.  A Ruby exception ends
  the function that meets it and every caller; it is a \<open>fault\<close> here.
\<close>

section \<open>C strings and Ruby strings\<close>

text \<open>
  A \<open>const char *\<close> is modelled by the bytes stored at the pointer.  C reads such a
  buffer up to the first zero byte; the end of the list stands for the terminating
  zero when the list holds none.  A Ruby string (\<open>rb_str_new\<close>) is a byte sequence
  with an explicit length and may hold any byte.
\<close>

type_synonym c_string = "char list"

definition NUL :: char where
  "NUL = CHR 0x00"

definition c_str :: "c_string \<Rightarrow> string" where
  "c_str buf = takeWhile (\<lambda>c. c \<noteq> NUL) buf"

definition strlen :: "c_string \<Rightarrow> nat" where
  "strlen buf = length (c_str buf)"

definition rb_str_new :: "c_string \<Rightarrow> nat \<Rightarrow> string" where
  "rb_str_new ptr len = take len ptr"

definition rb_str_new2 :: "c_string \<Rightarrow> string" where
  "rb_str_new2 ptr = rb_str_new ptr (strlen ptr)"

section \<open>The dummy key generator\<close>

text \<open>
  \<open>find_dummy_key\<close> keeps a buffer \<open>char dummy[5] = "a"\<close> and a length \<open>len\<close>.
  The inner \<open>for\<close> loop walks the buffer from index 0: a zero byte becomes \<open>a\<close>
  and \<open>len\<close> grows; a \<open>z\<close> becomes \<open>a\<close> and the walk goes on; any other byte is
  incremented.  \<open>bump\<close> is that loop on the part of the buffer from index \<open>i\<close> on; it
  returns the new bytes and whether \<open>len\<close> was incremented, and \<open>None\<close> when the
  walk leaves the buffer.
\<close>

definition incr_char :: "char \<Rightarrow> char" where
  "incr_char c = char_of (of_char c + (1::nat))"

fun bump :: "char list \<Rightarrow> (char list \<times> bool) option" where
  "bump [] = None"
| "bump (c # cs) =
     (if c = NUL then Some (CHR ''a'' # cs, True)
      else if c = CHR ''z'' then
        (case bump cs of
           None \<Rightarrow> None
         | Some (cs', grown) \<Rightarrow> Some (CHR ''a'' # cs', grown))
      else Some (incr_char c # cs, False))"

datatype fault = OutOfBounds | AssertionFailed | NoMethodError | ArgumentError

text \<open>Steps a byte still takes before it is \<open>z\<close>, and the odometer weight of a buffer.\<close>

definition steps_to_z :: "char \<Rightarrow> nat" where
  "steps_to_z c =
     (let n = of_char c in if n \<le> 122 then 122 - n else (378::nat) - n)"

fun weight :: "char list \<Rightarrow> nat" where
  "weight [] = 0"
| "weight (c # cs) = steps_to_z c + 256 * weight cs"

lemma steps_to_z_incr:
  assumes "c \<noteq> CHR ''z''"
  shows "steps_to_z (incr_char c) < steps_to_z c"
proof -
  define n :: nat where "n = of_char c"
  from assms have "(of_char c :: nat) \<noteq> of_char (CHR ''z'')"
    by (simp only: of_char_eq_iff not_False_eq_True)
  then have ne: "n \<noteq> 122" by (simp add: n_def)
  have lt: "n < 256"
    unfolding n_def by (metis of_char_mod_256 mod_less_divisor zero_less_numeral)
  have nxt: "(of_char (incr_char c) :: nat) = (n + 1) mod 256"
    by (simp add: incr_char_def n_def)
  show ?thesis
  proof (cases "n = 255")
    case True
    with nxt show ?thesis by (simp add: steps_to_z_def n_def [symmetric])
  next
    case False
    with lt have "(n + 1) mod 256 = n + 1" by simp
    with nxt ne lt show ?thesis
      by (auto simp add: steps_to_z_def n_def [symmetric])
  qed
qed

lemma steps_to_z_z [simp]: "steps_to_z CHR ''z'' = 0"
  by (simp add: steps_to_z_def)

lemma steps_to_z_a [simp]: "steps_to_z CHR ''a'' = 25"
  by (simp add: steps_to_z_def)

lemma bump_weight:
  "bump cs = Some (cs', False) \<Longrightarrow> weight cs' < weight cs"
proof (induction cs arbitrary: cs')
  case Nil
  then show ?case by simp
next
  case (Cons c cs)
  show ?case
  proof (cases "c = NUL")
    case True
    with Cons.prems show ?thesis by simp
  next
    case nz: False
    show ?thesis
    proof (cases "c = CHR ''z''")
      case True
      with nz Cons.prems obtain ds where b: "bump cs = Some (ds, False)"
        and eq: "cs' = CHR ''a'' # ds"
        by (auto split: option.splits prod.splits)
      from Cons.IH [OF b] have "weight ds < weight cs" .
      with eq True show ?thesis by simp
    next
      case False
      with nz Cons.prems have "cs' = incr_char c # cs" by simp
      with False show ?thesis by (simp add: steps_to_z_incr)
    qed
  qed
qed

function find_dummy_key_loop ::
  "(string \<Rightarrow> bool) \<Rightarrow> char list \<Rightarrow> nat \<Rightarrow> fault + string option" where
  "find_dummy_key_loop has_key dummy len =
     (if len < 5 then
        (let r_dummy = rb_str_new dummy len in
         if \<not> has_key r_dummy then Inr (Some r_dummy)
         else (case bump dummy of
                 None \<Rightarrow> Inl OutOfBounds
               | Some (dummy', grown) \<Rightarrow>
                   find_dummy_key_loop has_key dummy' (if grown then len + 1 else len)))
      else Inr None)"
  by pat_completeness auto
termination
  by (relation "measures [\<lambda>(h, d, l). 5 - l, \<lambda>(h, d, l). weight d]")
     (auto simp: bump_weight)

declare find_dummy_key_loop.simps [simp del]

section \<open>The DOM layer\<close>

text \<open>
  The pure-object-model build (\<open>NGLIB\<close> undefined) reaches the DOM library only
  through \<open>rb_funcall\<close>.  A DOM node is an element or a text, CDATA or comment
  payload.  An element is its name, its attributes without a namespace in document order
  (name and value), its attributes in a namespace (prefix, local name and value) and its
  children in document order.
\<close>

datatype xmlNode =
    XmlElement string "(string \<times> string) list" "(string \<times> string \<times> string) list"
      "xmlNode list"
  | Text string
  | CDATA string
  | Comment string

text \<open>An element without an attribute in a namespace.\<close>

abbreviation Element :: "string \<Rightarrow> (string \<times> string) list \<Rightarrow> xmlNode list \<Rightarrow> xmlNode" where
  "Element n as cs \<equiv> XmlElement n as [] cs"

datatype VALUE = Qnil | RString string | RAttr nat

text \<open>
  The five attribute methods \<open>xmlNewProp\<close> and \<open>find_dummy_key\<close> call on a node:
  \<open>key?\<close>, \<open>set_attribute\<close>, \<open>remove_attribute\<close>, \<open>attribute\<close> and
  \<open>node_name=\<close> (on the attribute object \<open>attribute\<close> returned).  They belong to the
  DOM library, so the model takes them as a parameter; a method that mutates the node
  returns the node after the call.
\<close>

record dom_layer =
  key_p :: "xmlNode \<Rightarrow> string \<Rightarrow> bool"
  set_attribute :: "xmlNode \<Rightarrow> string \<Rightarrow> string \<Rightarrow> VALUE \<times> xmlNode"
  remove_attribute :: "xmlNode \<Rightarrow> string \<Rightarrow> xmlNode"
  attribute :: "xmlNode \<Rightarrow> string \<Rightarrow> VALUE"
  node_name_set :: "xmlNode \<Rightarrow> VALUE \<Rightarrow> string \<Rightarrow> xmlNode"

fun attributes_of :: "xmlNode \<Rightarrow> (string \<times> string) list" where
  "attributes_of (XmlElement n as nas cs) = as"
| "attributes_of _ = []"

fun ns_attributes_of :: "xmlNode \<Rightarrow> (string \<times> string \<times> string) list" where
  "ns_attributes_of (XmlElement n as nas cs) = nas"
| "ns_attributes_of _ = []"

fun children_of :: "xmlNode \<Rightarrow> xmlNode list" where
  "children_of (XmlElement n as nas cs) = cs"
| "children_of _ = []"

fun map_attributes ::
  "((string \<times> string) list \<Rightarrow> (string \<times> string) list) \<Rightarrow> xmlNode \<Rightarrow> xmlNode" where
  "map_attributes f (XmlElement n as nas cs) = XmlElement n (f as) nas cs"
| "map_attributes f node = node"

fun map_ns_attributes ::
  "((string \<times> string \<times> string) list \<Rightarrow> (string \<times> string \<times> string) list) \<Rightarrow>
     xmlNode \<Rightarrow> xmlNode" where
  "map_ns_attributes f (XmlElement n as nas cs) = XmlElement n as (f nas) cs"
| "map_ns_attributes f node = node"

fun upsert :: "string \<Rightarrow> string \<Rightarrow> (string \<times> string) list \<Rightarrow> (string \<times> string) list" where
  "upsert k v [] = [(k, v)]"
| "upsert k v ((k', v') # as) = (if k' = k then (k, v) # as else (k', v') # upsert k v as)"

fun index_of :: "string \<Rightarrow> (string \<times> string) list \<Rightarrow> nat option" where
  "index_of k [] = None"
| "index_of k ((k', v') # as) =
     (if k' = k then Some 0 else map_option Suc (index_of k as))"

definition rename_at :: "nat \<Rightarrow> string \<Rightarrow> (string \<times> string) list \<Rightarrow> (string \<times> string) list" where
  "rename_at i k as = (if i < length as then as[i := (k, snd (as ! i))] else as)"

text \<open>
  The setter reads a name \<open>prefix:local\<close> as a qualified name (the comment at the head
  of \<open>xmlNewProp\<close>): when the prefix has a namespace, the attribute is set in that
  namespace under the local name; otherwise, and for every other name, it is set without
  a namespace under the name as given.  \<open>split_qname\<close> is the split at the first colon,
  which a name that starts with a colon or has none does not have.  The prefix \<open>xml\<close>
  always has its namespace; a document this program builds declares no other.
\<close>

definition split_qname :: "string \<Rightarrow> (string \<times> string) option" where
  "split_qname name =
     (case name of
        [] \<Rightarrow> None
      | c # cs \<Rightarrow>
          if c \<noteq> CHR '':'' \<and> CHR '':'' \<in> set cs
          then Some (takeWhile (\<lambda>c. c \<noteq> CHR '':'') name,
                     tl (dropWhile (\<lambda>c. c \<noteq> CHR '':'') name))
          else None)"

definition has_namespace :: "string \<Rightarrow> bool" where
  "has_namespace p = (p = ''xml'')"

fun upsert_ns ::
  "string \<Rightarrow> string \<Rightarrow> string \<Rightarrow> (string \<times> string \<times> string) list \<Rightarrow>
     (string \<times> string \<times> string) list" where
  "upsert_ns p l v [] = [(p, l, v)]"
| "upsert_ns p l v ((p', l', v') # nas) =
     (if p' = p \<and> l' = l then (p, l, v) # nas else (p', l', v') # upsert_ns p l v nas)"

text \<open>
  Modelled from the spec: the DOM library's attribute methods are not part of this
  repository.  The setter takes the part of a name before a colon as a namespace prefix,
  as above; without a namespace it stores the value under the name as given: it
  replaces the value of an attribute of that name in place and otherwise appends a new
  attribute.  It returns the value.  \<open>key?\<close>, \<open>remove_attribute\<close> and
  \<open>attribute\<close> look at the attributes without a namespace: \<open>remove_attribute\<close>
  drops the attribute of the given name, \<open>attribute\<close> returns the attribute object
  of the given name (here its position) or nil, and \<open>node_name=\<close> renames that
  object in place.  \<open>xmlNewProp\<close> calls all five on the element \<open>walk_element\<close> has
  just created.
\<close>

definition nokogiri :: dom_layer where
  "nokogiri =
     \<lparr> key_p = (\<lambda>node k. k \<in> set (map fst (attributes_of node))),
       set_attribute = (\<lambda>node k v.
         case split_qname k of
           None \<Rightarrow> (RString v, map_attributes (upsert k v) node)
         | Some (p, l) \<Rightarrow>
             if has_namespace p
             then (RString v, map_ns_attributes (upsert_ns p l v) node)
             else (RString v, map_attributes (upsert k v) node)),
       remove_attribute = (\<lambda>node k. map_attributes (filter (\<lambda>(k', v'). k' \<noteq> k)) node),
       attribute = (\<lambda>node k. case index_of k (attributes_of node) of
                                None \<Rightarrow> Qnil | Some i \<Rightarrow> RAttr i),
       node_name_set = (\<lambda>node attr k. case attr of
                                RAttr i \<Rightarrow> map_attributes (rename_at i k) node
                              | _ \<Rightarrow> node) \<rparr>"

text \<open>
  Modelled from the spec: node construction and child append of the DOM library.  A new
  element has no attributes and no children; a node given to \<open>add_child\<close> is attached
  as the last child.  \<open>add_child\<close> raises \<open>ArgumentError\<close> when it is given nil, which
  is not a node, and \<open>rb_str_new\<close> raises \<open>ArgumentError\<close> when it is given a negative
  length.
\<close>

record DTD =
  dtd_name :: string
  external_id :: "string option"
  system_id :: "string option"

record SyntaxError =
  iv_message :: string
  iv_domain :: int
  iv_code :: int
  iv_level :: int
  iv_file :: string
  iv_line :: int
  iv_str1 :: "string option"
  iv_str2 :: "string option"
  iv_str3 :: "string option"
  iv_int1 :: int
  iv_column :: int

record xmlDoc =
  internal_subset :: "DTD option"
  doc_children :: "xmlNode list"
  iv_errors :: "SyntaxError list option"

definition xmlNewDocNode :: "xmlDoc \<Rightarrow> c_string \<Rightarrow> xmlNode" where
  "xmlNewDocNode doc name = Element (rb_str_new2 name) [] []"

definition xmlNewDocText :: "xmlDoc \<Rightarrow> c_string \<Rightarrow> xmlNode" where
  "xmlNewDocText doc text = Text (rb_str_new2 text)"

definition xmlNewCDataBlock :: "xmlDoc \<Rightarrow> c_string \<Rightarrow> int \<Rightarrow> fault + xmlNode" where
  "xmlNewCDataBlock doc content len =
     (if len < 0 then Inl ArgumentError else Inr (CDATA (rb_str_new content (nat len))))"

definition xmlNewDocComment :: "xmlDoc \<Rightarrow> c_string \<Rightarrow> xmlNode" where
  "xmlNewDocComment doc text = Comment (rb_str_new2 text)"

fun xmlAddChild :: "xmlNode \<Rightarrow> xmlNode option \<Rightarrow> fault + xmlNode" where
  "xmlAddChild element None = Inl ArgumentError"
| "xmlAddChild (XmlElement n as nas cs) (Some node) = Inr (XmlElement n as nas (cs @ [node]))"
| "xmlAddChild element (Some node) = Inr element"

definition xmlAddChild_doc :: "xmlDoc \<Rightarrow> xmlNode option \<Rightarrow> fault + xmlDoc" where
  "xmlAddChild_doc doc node =
     (case node of
        None \<Rightarrow> Inl ArgumentError
      | Some child \<Rightarrow> Inr (doc\<lparr>doc_children := doc_children doc @ [child]\<rparr>))"

definition xmlDocSetRootElement :: "xmlDoc \<Rightarrow> xmlNode option \<Rightarrow> fault + xmlDoc" where
  "xmlDocSetRootElement doc root =
     (case root of
        None \<Rightarrow> Inl ArgumentError
      | Some child \<Rightarrow> Inr (doc\<lparr>doc_children := doc_children doc @ [child]\<rparr>))"

text \<open>
  The results of \<open>walk_tree\<close> are \<open>VALUE\<close>s in this build, \<open>NIL\<close> being
  \<open>Qnil\<close>, and the tests \<open>if (node)\<close> of \<open>walk_element\<close> and \<open>parse\<close> are C
  tests: they hold of every \<open>VALUE\<close> but 0.  \<open>Qfalse\<close> is 0; \<open>Qnil\<close> and every
  reference to an object are not.  \<open>None\<close> is \<open>Qnil\<close> in a result of \<open>walk_tree\<close>.
\<close>

definition nonzero :: "xmlNode option \<Rightarrow> bool" where
  "nonzero node = (case node of None \<Rightarrow> True | Some object \<Rightarrow> True)"

text \<open>
  The conversion \<open>(int)\<close> of a \<open>size_t\<close>: the low 32 bits, read as two's
  complement.
\<close>

definition c_int :: "nat \<Rightarrow> int" where
  "c_int n = (let m = int (n mod 2 ^ 32) in if m < 2 ^ 31 then m else m - 2 ^ 32)"

definition Nokogiri_wrap_xml_document :: "xmlDoc \<Rightarrow> xmlDoc" where
  "Nokogiri_wrap_xml_document doc = doc"

text \<open>
  Modelled from the spec: the document constructor and \<open>create_internal_subset\<close> of
  the DOM library.  \<open>Document.new(uri, external_id)\<close> takes the two identifiers and no
  doctype name; the new document has an internal subset of the library's own name
  carrying them, with the library's default identifiers when both are nil.
\<close>

definition Document_new :: "string option \<Rightarrow> string option \<Rightarrow> xmlDoc" where
  "Document_new uri ext =
     \<lparr> internal_subset = Some
         (if uri = None \<and> ext = None
          then \<lparr> dtd_name = ''html'',
                 external_id = Some ''-//W3C//DTD HTML 4.0 Transitional//EN'',
                 system_id = Some ''http://www.w3.org/TR/REC-html40/loose.dtd'' \<rparr>
          else \<lparr> dtd_name = ''html'', external_id = ext, system_id = uri \<rparr>),
       doc_children = [],
       iv_errors = None \<rparr>"

definition create_internal_subset ::
  "xmlDoc \<Rightarrow> string \<Rightarrow> string option \<Rightarrow> string option \<Rightarrow> xmlDoc" where
  "create_internal_subset doc name ext sys =
     doc\<lparr>internal_subset := Some \<lparr> dtd_name = name, external_id = ext, system_id = sys \<rparr>\<rparr>"

section \<open>The parse tree\<close>

datatype GumboAttributeNamespaceEnum =
    GUMBO_ATTR_NAMESPACE_NONE
  | GUMBO_ATTR_NAMESPACE_XLINK
  | GUMBO_ATTR_NAMESPACE_XML
  | GUMBO_ATTR_NAMESPACE_XMLNS

record GumboAttribute =
  attr_namespace :: GumboAttributeNamespaceEnum
  attr_name :: c_string
  attr_value :: c_string

text \<open>
  A node is its type tag with the member of the union \<open>v\<close> that \<open>walk_tree\<close> reads for
  it: \<open>v.element\<close> for an element or a template, \<open>v.text.text\<close> for the four text
  kinds, nothing for a document node.
\<close>

datatype GumboElement =
    GumboElement c_string "GumboAttribute list" "GumboNode list"
and GumboNode =
    GUMBO_NODE_DOCUMENT
  | GUMBO_NODE_ELEMENT GumboElement
  | GUMBO_NODE_TEXT c_string
  | GUMBO_NODE_CDATA c_string
  | GUMBO_NODE_COMMENT c_string
  | GUMBO_NODE_WHITESPACE c_string
  | GUMBO_NODE_TEMPLATE GumboElement

fun element_name :: "GumboElement \<Rightarrow> c_string" where
  "element_name (GumboElement name attrs children) = name"

fun element_attributes :: "GumboElement \<Rightarrow> GumboAttribute list" where
  "element_attributes (GumboElement name attrs children) = attrs"

fun element_children :: "GumboElement \<Rightarrow> GumboNode list" where
  "element_children (GumboElement name attrs children) = children"

text \<open>
  \<open>parse\<close> reads the first byte of the public and the system identifier without a
  check, so they are strings; it passes the doctype name on unread, so the name is a
  pointer that may be null.  \<open>root\<close> is the position of the root element among the
  children of the document, the node \<open>child == output->root\<close> holds for.  The line,
  the column and the type of an error are the \<open>int\<close> values \<open>INT2NUM\<close> receives.
\<close>

record GumboDocument =
  has_doctype :: bool
  doctype_name :: "c_string option"
  public_identifier :: c_string
  system_identifier :: c_string
  document_children :: "GumboNode list"

record GumboSourcePosition =
  line :: int
  column :: int

record GumboError =
  error_type :: int
  position :: GumboSourcePosition

record GumboOutput =
  document :: GumboDocument
  root :: nat
  errors :: "GumboError list"

section \<open>Attribute installation\<close>

definition dummy_init :: "char list" where
  "dummy_init = [CHR ''a'', NUL, NUL, NUL, NUL]"

text \<open>
  \<open>find_dummy_key\<close>: the loop started on \<open>dummy = "a"\<close>, \<open>len = 1\<close>.  The walk of
  \<open>bump\<close> never leaves the buffer from that start (\<open>find_dummy_key_loop_in_bounds\<close>
  below), so the fault has no result of its own here.
\<close>

definition find_dummy_key :: "dom_layer \<Rightarrow> xmlNode \<Rightarrow> string option" where
  "find_dummy_key ops collection =
     (case find_dummy_key_loop (key_p ops collection) dummy_init 1 of
        Inr r_dummy \<Rightarrow> r_dummy
      | Inl f \<Rightarrow> None)"

definition xmlNewProp :: "dom_layer \<Rightarrow> xmlNode \<Rightarrow> c_string \<Rightarrow> c_string \<Rightarrow> VALUE \<times> xmlNode" where
  "xmlNewProp ops node name val =
     (let len = strlen name;
          r_name = rb_str_new name len
      in if CHR '':'' \<notin> set (take len name)
         then set_attribute ops node r_name (rb_str_new2 val)
         else
           (case find_dummy_key ops node of
              None \<Rightarrow> (Qnil, node)
            | Some dummy \<Rightarrow>
                (let (r_value, node1) = set_attribute ops node dummy (rb_str_new2 val)
                 in if r_value = Qnil then (Qnil, node1)
                    else
                      (let node2 = remove_attribute ops node1 r_name;
                           attr = attribute ops node2 dummy
                       in if attr = Qnil then (Qnil, node2)
                          else (attr, node_name_set ops node2 attr r_name)))))"

text \<open>
  The \<open>switch\<close> of \<open>walk_element\<close> on the namespace of an attribute: the prefix
  \<open>ns\<close>, or \<open>None\<close> for \<open>NULL\<close>.
\<close>

definition attribute_ns :: "GumboAttribute \<Rightarrow> string option" where
  "attribute_ns attr =
     (case attr_namespace attr of
        GUMBO_ATTR_NAMESPACE_XLINK \<Rightarrow> Some ''xlink:''
      | GUMBO_ATTR_NAMESPACE_XML \<Rightarrow> Some ''xml:''
      | GUMBO_ATTR_NAMESPACE_XMLNS \<Rightarrow>
          (if c_str (attr_name attr) = c_str ''xmlns'' then None else Some ''xmlns:'')
      | GUMBO_ATTR_NAMESPACE_NONE \<Rightarrow> None)"

text \<open>
  One round of the attribute loop.  With a prefix, \<open>strcpy\<close> and \<open>strcat\<close> leave
  the prefix, the name and a terminating zero in the buffer \<open>name\<close>, which is freed
  and allocated anew when they do not fit; what the buffer holds behind that zero is
  never read.  The result of \<open>xmlNewProp\<close> is not used.
\<close>

definition install_attribute :: "dom_layer \<Rightarrow> xmlNode \<Rightarrow> GumboAttribute \<Rightarrow> VALUE \<times> xmlNode" where
  "install_attribute ops element attr =
     (case attribute_ns attr of
        Some ns \<Rightarrow> xmlNewProp ops element (ns @ c_str (attr_name attr) @ [NUL]) (attr_value attr)
      | None \<Rightarrow> xmlNewProp ops element (attr_name attr) (attr_value attr))"

fun walk_attributes :: "dom_layer \<Rightarrow> xmlNode \<Rightarrow> GumboAttribute list \<Rightarrow> xmlNode" where
  "walk_attributes ops element [] = element"
| "walk_attributes ops element (attr # attrs) =
     walk_attributes ops (snd (install_attribute ops element attr)) attrs"

section \<open>The tree walk\<close>

fun walk_tree :: "dom_layer \<Rightarrow> xmlDoc \<Rightarrow> GumboNode \<Rightarrow> fault + xmlNode option"
  and walk_element :: "dom_layer \<Rightarrow> xmlDoc \<Rightarrow> GumboElement \<Rightarrow> fault + xmlNode"
  and walk_children :: "dom_layer \<Rightarrow> xmlDoc \<Rightarrow> xmlNode \<Rightarrow> GumboNode list \<Rightarrow> fault + xmlNode"
where
  "walk_tree ops doc GUMBO_NODE_DOCUMENT = Inr None"
| "walk_tree ops doc (GUMBO_NODE_ELEMENT e) =
     (case walk_element ops doc e of Inl f \<Rightarrow> Inl f | Inr node \<Rightarrow> Inr (Some node))"
| "walk_tree ops doc (GUMBO_NODE_TEMPLATE e) =
     (case walk_element ops doc e of Inl f \<Rightarrow> Inl f | Inr node \<Rightarrow> Inr (Some node))"
| "walk_tree ops doc (GUMBO_NODE_TEXT text) = Inr (Some (xmlNewDocText doc text))"
| "walk_tree ops doc (GUMBO_NODE_WHITESPACE text) = Inr (Some (xmlNewDocText doc text))"
| "walk_tree ops doc (GUMBO_NODE_CDATA text) =
     (case xmlNewCDataBlock doc text (c_int (strlen text)) of
        Inl f \<Rightarrow> Inl f
      | Inr node \<Rightarrow> Inr (Some node))"
| "walk_tree ops doc (GUMBO_NODE_COMMENT text) = Inr (Some (xmlNewDocComment doc text))"
| "walk_element ops doc (GumboElement name attrs children) =
     walk_children ops doc (walk_attributes ops (xmlNewDocNode doc name) attrs) children"
| "walk_children ops doc element [] = Inr element"
| "walk_children ops doc element (child # children) =
     (case walk_tree ops doc child of
        Inl f \<Rightarrow> Inl f
      | Inr node \<Rightarrow>
          if nonzero node
          then (case xmlAddChild element node of
                  Inl f \<Rightarrow> Inl f
                | Inr element' \<Rightarrow> walk_children ops doc element' children)
          else walk_children ops doc element children)"

section \<open>Document synthesis and the driver\<close>

definition new_html_doc ::
  "c_string option \<Rightarrow> c_string option \<Rightarrow> c_string option \<Rightarrow> fault + xmlDoc" where
  "new_html_doc dtd_name' system public =
     (if system = None \<and> public = None then
        (let doc = Document_new None (Some (rb_str_new [] 0)) in
         case internal_subset doc of
           None \<Rightarrow> Inl NoMethodError
         | Some dtd \<Rightarrow>
             (let doc = doc\<lparr>internal_subset := None\<rparr> in
              case dtd_name' of
                Some name \<Rightarrow> Inr (create_internal_subset doc (rb_str_new2 name) None None)
              | None \<Rightarrow> Inr doc))
      else
        (case dtd_name' of
           None \<Rightarrow> Inl AssertionFailed
         | Some name \<Rightarrow>
             (let r_system = map_option rb_str_new2 system;
                  r_public = map_option rb_str_new2 public;
                  doc = Document_new r_system r_public
              in case internal_subset doc of
                   None \<Rightarrow> Inl NoMethodError
                 | Some dtd \<Rightarrow>
                     Inr (doc\<lparr>internal_subset := Some (dtd\<lparr>dtd_name := rb_str_new2 name\<rparr>)\<rparr>))))"

definition first_byte :: "c_string \<Rightarrow> char" where
  "first_byte buf = (case buf of [] \<Rightarrow> NUL | c # cs \<Rightarrow> c)"

text \<open>The loop of \<open>parse\<close> over the children of the document; \<open>i\<close> is its index.\<close>

fun parse_children ::
  "dom_layer \<Rightarrow> nat \<Rightarrow> xmlDoc \<Rightarrow> nat \<Rightarrow> GumboNode list \<Rightarrow> fault + xmlDoc" where
  "parse_children ops root_at doc i [] = Inr doc"
| "parse_children ops root_at doc i (child # children) =
     (case walk_tree ops doc child of
        Inl f \<Rightarrow> Inl f
      | Inr node \<Rightarrow>
          if nonzero node
          then (case (if i = root_at then xmlDocSetRootElement doc node
                      else xmlAddChild_doc doc node) of
                  Inl f \<Rightarrow> Inl f
                | Inr doc' \<Rightarrow> parse_children ops root_at doc' (i + 1) children)
          else parse_children ops root_at doc (i + 1) children)"

definition syntax_error ::
  "(GumboError \<Rightarrow> string \<Rightarrow> string) \<Rightarrow> string \<Rightarrow> string \<Rightarrow> GumboError \<Rightarrow> SyntaxError" where
  "syntax_error gumbo_caret_diagnostic_to_string input url err =
     \<lparr> iv_message = gumbo_caret_diagnostic_to_string err input,
       iv_domain = 1,
       iv_code = 1,
       iv_level = 2,
       iv_file = url,
       iv_line = line (position err),
       iv_str1 = None,
       iv_str2 = None,
       iv_str3 = None,
       iv_int1 = error_type err,
       iv_column = column (position err) \<rparr>"

text \<open>The loop of \<open>parse\<close> over the parser's errors, with \<open>rb_ary_push\<close>.\<close>

fun parse_errors ::
  "(GumboError \<Rightarrow> string \<Rightarrow> string) \<Rightarrow> string \<Rightarrow> string \<Rightarrow> SyntaxError list \<Rightarrow>
     GumboError list \<Rightarrow> SyntaxError list" where
  "parse_errors fmt input url rerrors [] = rerrors"
| "parse_errors fmt input url rerrors (err # errs) =
     parse_errors fmt input url (rerrors @ [syntax_error fmt input url err]) errs"

text \<open>
  \<open>parse\<close>.  The parser and its diagnostic formatter are outside the repository and
  are parameters: \<open>gumbo_parse_with_options max_errors input\<close> is the parser's output
  and \<open>gumbo_caret_diagnostic_to_string err input\<close> the rendered message.
\<close>

definition parse ::
  "dom_layer \<Rightarrow> (int \<Rightarrow> string \<Rightarrow> GumboOutput) \<Rightarrow> (GumboError \<Rightarrow> string \<Rightarrow> string) \<Rightarrow>
     string \<Rightarrow> string \<Rightarrow> int \<Rightarrow> fault + xmlDoc" where
  "parse ops gumbo_parse_with_options gumbo_caret_diagnostic_to_string input url max_errors =
     (let output = gumbo_parse_with_options max_errors input;
          d = document output;
          made =
            (if has_doctype d then
               (let name = doctype_name d;
                    public = public_identifier d;
                    system = system_identifier d;
                    public = (if first_byte public \<noteq> NUL then Some public else None);
                    system = (if first_byte system \<noteq> NUL then Some system else None)
                in new_html_doc name system public)
             else new_html_doc None None None)
      in case made of
           Inl f \<Rightarrow> Inl f
         | Inr doc \<Rightarrow>
             (case parse_children ops (root output) doc 0 (document_children d) of
                Inl f \<Rightarrow> Inl f
              | Inr doc \<Rightarrow>
                  (let rdoc = Nokogiri_wrap_xml_document doc
                   in if errors output \<noteq> []
                      then Inr (rdoc\<lparr>iv_errors :=
                             Some (parse_errors gumbo_caret_diagnostic_to_string input url []
                                     (errors output))\<rparr>)
                      else Inr rdoc)))"

section \<open>Parse trees that are walked to the end\<close>

text \<open>
  The parse trees without a DOCUMENT node below the root of the walk and with every
  CDATA payload shorter than \<open>2^31\<close> bytes.
\<close>

fun walkable_node :: "GumboNode \<Rightarrow> bool"
  and walkable_element :: "GumboElement \<Rightarrow> bool"
  and walkable_nodes :: "GumboNode list \<Rightarrow> bool"
where
  "walkable_node GUMBO_NODE_DOCUMENT = False"
| "walkable_node (GUMBO_NODE_ELEMENT e) = walkable_element e"
| "walkable_node (GUMBO_NODE_TEMPLATE e) = walkable_element e"
| "walkable_node (GUMBO_NODE_TEXT text) = True"
| "walkable_node (GUMBO_NODE_WHITESPACE text) = True"
| "walkable_node (GUMBO_NODE_CDATA text) = (strlen text < 2 ^ 31)"
| "walkable_node (GUMBO_NODE_COMMENT text) = True"
| "walkable_element (GumboElement name attrs children) = walkable_nodes children"
| "walkable_nodes [] = True"
| "walkable_nodes (child # children) = (walkable_node child \<and> walkable_nodes children)"

text \<open>The call of \<open>new_html_doc\<close> that \<open>parse\<close> makes for a parsed document.\<close>

definition synthesized :: "GumboDocument \<Rightarrow> fault + xmlDoc" where
  "synthesized d =
     (if has_doctype d then
        new_html_doc (doctype_name d)
          (if first_byte (system_identifier d) \<noteq> NUL then Some (system_identifier d) else None)
          (if first_byte (public_identifier d) \<noteq> NUL then Some (public_identifier d) else None)
      else new_html_doc None None None)"

section \<open>The tables of the specification\<close>

text \<open>
  The prefix table of the specification for the namespace category of an attribute, with
  its exception for the XMLNS attribute named \<open>xmlns\<close>, and the qualified name it
  gives.
\<close>

definition spec_ns_prefix :: "GumboAttribute \<Rightarrow> string" where
  "spec_ns_prefix attr =
     (case attr_namespace attr of
        GUMBO_ATTR_NAMESPACE_NONE \<Rightarrow> ''''
      | GUMBO_ATTR_NAMESPACE_XLINK \<Rightarrow> ''xlink:''
      | GUMBO_ATTR_NAMESPACE_XML \<Rightarrow> ''xml:''
      | GUMBO_ATTR_NAMESPACE_XMLNS \<Rightarrow> (if c_str (attr_name attr) = ''xmlns'' then '''' else ''xmlns:''))"

definition spec_qualified_name :: "GumboAttribute \<Rightarrow> string" where
  "spec_qualified_name attr = spec_ns_prefix attr @ c_str (attr_name attr)"

text \<open>
  The attributes of an element after one more attribute \<open>q\<close> with value \<open>v\<close> is
  installed on the modelled DOM: a name without a colon goes through the setter, a name
  with a colon ends up as the last attribute and the only one of its name.
\<close>

definition installed :: "string \<Rightarrow> string \<Rightarrow> (string \<times> string) list \<Rightarrow> (string \<times> string) list" where
  "installed q v as =
     (if CHR '':'' \<notin> set q then upsert q v as
      else filter (\<lambda>(k, v'). k \<noteq> q) as @ [(q, v)])"

text \<open>
  The candidate keys of the dummy key generator in the order the code tries them: the
  keys of length 1, then 2, 3 and 4 over \<open>a\<close> to \<open>z\<close>; among the keys of one length
  the first character changes fastest (\<open>aa\<close>, \<open>ba\<close>, ..., \<open>za\<close>, \<open>ab\<close>, ...).
\<close>

definition alphabet :: string where
  "alphabet = ''abcdefghijklmnopqrstuvwxyz''"

fun keys_of_length :: "nat \<Rightarrow> string list" where
  "keys_of_length 0 = [[]]"
| "keys_of_length (Suc n) = concat (map (\<lambda>rest. map (\<lambda>c. c # rest) alphabet) (keys_of_length n))"

definition candidate_keys :: "string list" where
  "candidate_keys = keys_of_length 1 @ keys_of_length 2 @ keys_of_length 3 @ keys_of_length 4"

text \<open>
  The key that follows a key in that order, and the lists in which every key is
  followed by its successor.
\<close>

fun next_key :: "string \<Rightarrow> string" where
  "next_key [] = ''a''"
| "next_key (c # cs) = (if c = CHR ''z'' then CHR ''a'' # next_key cs else incr_char c # cs)"

fun chained :: "string list \<Rightarrow> bool" where
  "chained [] = True"
| "chained [k] = True"
| "chained (k # k' # ks) = (k' = next_key k \<and> chained (k' # ks))"

text \<open>
  The synthesis as the specification words it: the document is constructed from the two
  identifiers, and the doctype name is then patched onto its internal subset.
\<close>

definition spec_patched_document :: "string \<Rightarrow> string option \<Rightarrow> string option \<Rightarrow> xmlDoc" where
  "spec_patched_document name r_system r_public =
     (let doc = Document_new r_system r_public
      in doc\<lparr>internal_subset :=
               map_option (\<lambda>dtd. dtd\<lparr>dtd_name := name\<rparr>) (internal_subset doc)\<rparr>)"

section \<open>Example inputs\<close>

definition example_tree :: "GumboNode list" where
  "example_tree =
     [GUMBO_NODE_COMMENT '' top '',
      GUMBO_NODE_ELEMENT (GumboElement ''html'' []
        [GUMBO_NODE_ELEMENT (GumboElement ''head'' [] []),
         GUMBO_NODE_ELEMENT (GumboElement ''body'' []
           [GUMBO_NODE_ELEMENT (GumboElement ''p''
              [\<lparr>attr_namespace = GUMBO_ATTR_NAMESPACE_NONE, attr_name = ''class'', attr_value = ''a:b''\<rparr>]
              [GUMBO_NODE_TEXT ''hi''])])])]"

definition example_output :: "GumboError list \<Rightarrow> GumboOutput" where
  "example_output errs =
     \<lparr> document = \<lparr> has_doctype = True, doctype_name = Some ''html'',
                      public_identifier = '''', system_identifier = '''',
                      document_children = example_tree \<rparr>,
       root = 1,
       errors = errs \<rparr>"


definition example_message :: "GumboError \<Rightarrow> string \<Rightarrow> string" where
  "example_message err input = ''parse error''"

definition example_element :: GumboElement where
  "example_element =
     GumboElement ''svg''
       [\<lparr>attr_namespace = GUMBO_ATTR_NAMESPACE_NONE, attr_name = ''id'', attr_value = ''x''\<rparr>,
        \<lparr>attr_namespace = GUMBO_ATTR_NAMESPACE_XLINK, attr_name = ''href'', attr_value = ''#a''\<rparr>,
        \<lparr>attr_namespace = GUMBO_ATTR_NAMESPACE_XML, attr_name = ''lang'', attr_value = ''en''\<rparr>,
        \<lparr>attr_namespace = GUMBO_ATTR_NAMESPACE_XMLNS, attr_name = ''xmlns'', attr_value = ''s''\<rparr>,
        \<lparr>attr_namespace = GUMBO_ATTR_NAMESPACE_XMLNS, attr_name = ''xlink'', attr_value = ''l''\<rparr>]
       [GUMBO_NODE_TEXT ''x'', GUMBO_NODE_COMMENT ''y'']"

text \<open>
  An element that has the 26 one-letter keys and \<open>aa\<close> as attributes, and an element
  that has every candidate key as an attribute.
\<close>

definition crowded_element :: xmlNode where
  "crowded_element =
     Element ''p'' (map (\<lambda>c. ([c], ''1'')) alphabet @ [(''aa'', ''1'')]) []"

definition full_element :: xmlNode where
  "full_element = Element ''p'' (map (\<lambda>k. (k, ''1'')) candidate_keys) []"

text \<open>
  A parsed document with the HTML 4.01 Strict doctype, a parsed document whose doctype
  has a public identifier and a null name, and a parse element with a DOCUMENT node
  between its two children.
\<close>

definition strict_output :: GumboOutput where
  "strict_output =
     \<lparr> document = \<lparr> has_doctype = True, doctype_name = Some ''html'',
                      public_identifier = ''-//W3C//DTD HTML 4.01//EN'',
                      system_identifier = ''http://www.w3.org/TR/html4/strict.dtd'',
                      document_children = example_tree \<rparr>,
       root = 1,
       errors = [] \<rparr>"


definition document_child_element :: GumboElement where
  "document_child_element =
     GumboElement ''p'' []
       [GUMBO_NODE_TEXT ''x'', GUMBO_NODE_DOCUMENT, GUMBO_NODE_COMMENT ''y'']"

section \<open>Facts about C strings\<close>

lemma c_str_no_NUL: "NUL \<notin> set (c_str buf)"
  unfolding c_str_def by (induction buf) auto

lemma c_str_id: "NUL \<notin> set buf \<Longrightarrow> c_str buf = buf"
  unfolding c_str_def by (induction buf) auto

lemma rb_str_new2_c_str: "rb_str_new2 buf = c_str buf"
  unfolding rb_str_new2_def rb_str_new_def strlen_def c_str_def
  by (induction buf) auto

lemma rb_str_new_strlen: "rb_str_new buf (strlen buf) = c_str buf"
  using rb_str_new2_c_str [of buf] by (simp add: rb_str_new2_def)

lemma c_str_terminated:
  "NUL \<notin> set xs \<Longrightarrow> c_str (xs @ NUL # ys) = xs"
  unfolding c_str_def by (induction xs) auto

lemma c_str_idem [simp]: "c_str (c_str buf) = c_str buf"
  by (simp add: c_str_id c_str_no_NUL)

lemma take_strlen: "take (strlen name) name = c_str name"
  using rb_str_new_strlen [of name] by (simp add: rb_str_new_def)

lemma c_str_xmlns: "c_str ''xmlns'' = ''xmlns''"
  by (simp add: c_str_def NUL_def)


section \<open>Facts about the dummy key generator\<close>

subsection \<open>The candidate keys are chained by the successor\<close>

lemma keys_of_length_n_lists: "keys_of_length n = List.n_lists n alphabet"
  by (induction n) simp_all

lemma length_next_key: "length (next_key k) = length k \<or> length (next_key k) = Suc (length k)"
  by (induction k) auto

lemma chained_append:
  "chained (xs @ ys) =
     (chained xs \<and> chained ys \<and> (xs \<noteq> [] \<and> ys \<noteq> [] \<longrightarrow> hd ys = next_key (last xs)))"
proof (induction xs rule: chained.induct)
  case 1
  then show ?case by simp
next
  case (2 k)
  then show ?case by (cases ys) auto
next
  case (3 k k' ks)
  then show ?case by auto
qed

lemma incr_alphabet:
  "map incr_char ''abcdefghijklmnopqrstuvwxy'' = ''bcdefghijklmnopqrstuvwxyz''"
  by (simp add: incr_char_def char_of_eq_iff)

lemma alphabet_nonempty [simp]: "alphabet \<noteq> []"
  by (simp add: alphabet_def)

lemma block_chained:
  "chained (map (\<lambda>c. c # rest) alphabet)"
  using incr_alphabet by (simp add: alphabet_def)

lemma block_hd_last:
  "hd (map (\<lambda>c. c # rest) alphabet) = CHR ''a'' # rest"
  "last (map (\<lambda>c. c # rest) alphabet) = CHR ''z'' # rest"
  "map (\<lambda>c. c # rest) alphabet \<noteq> []"
  by (simp_all add: alphabet_def)

lemma blocks_chained:
  "rs \<noteq> [] \<Longrightarrow> chained rs \<Longrightarrow>
   chained (concat (map (\<lambda>rest. map (\<lambda>c. c # rest) alphabet) rs))
   \<and> concat (map (\<lambda>rest. map (\<lambda>c. c # rest) alphabet) rs) \<noteq> []
   \<and> hd (concat (map (\<lambda>rest. map (\<lambda>c. c # rest) alphabet) rs)) = CHR ''a'' # hd rs
   \<and> last (concat (map (\<lambda>rest. map (\<lambda>c. c # rest) alphabet) rs)) = CHR ''z'' # last rs"
proof (induction rs rule: chained.induct)
  case 1
  then show ?case by simp
next
  case (2 k)
  then show ?case by (simp add: block_chained block_hd_last)
next
  case (3 k k' ks)
  let ?rest = "concat (map (\<lambda>rest. map (\<lambda>c. c # rest) alphabet) (k' # ks))"
  from 3 have IH: "chained ?rest" "?rest \<noteq> []" "hd ?rest = CHR ''a'' # k'"
    "last ?rest = CHR ''z'' # last (k' # ks)" and k': "k' = next_key k"
    by auto
  have split: "concat (map (\<lambda>rest. map (\<lambda>c. c # rest) alphabet) (k # k' # ks))
      = map (\<lambda>c. c # k) alphabet @ ?rest"
    by simp
  show ?case
    unfolding split chained_append
    using IH k' by (simp add: block_chained block_hd_last)
qed

lemma keys_of_length_chained:
  "chained (keys_of_length n) \<and> keys_of_length n \<noteq> []
   \<and> hd (keys_of_length n) = replicate n CHR ''a''
   \<and> last (keys_of_length n) = replicate n CHR ''z''"
proof (induction n)
  case 0
  then show ?case by simp
next
  case (Suc n)
  with blocks_chained [of "keys_of_length n"] show ?case by simp
qed

lemma next_key_all_z: "next_key (replicate n CHR ''z'') = replicate (Suc n) CHR ''a''"
  by (induction n) simp_all

lemma candidate_keys_chained: "chained candidate_keys"
  unfolding candidate_keys_def
  by (simp add: chained_append keys_of_length_chained next_key_all_z
      del: keys_of_length.simps replicate.simps)

lemma NUL_not_in_alphabet: "NUL \<notin> set alphabet"
  by (simp add: alphabet_def NUL_def)

lemma keys_of_length_elem:
  "k \<in> set (keys_of_length n) \<Longrightarrow> length k = n \<and> NUL \<notin> set k"
  using NUL_not_in_alphabet by (auto simp: keys_of_length_n_lists set_n_lists)

lemma candidate_keys_elem:
  "k \<in> set candidate_keys \<Longrightarrow> NUL \<notin> set k \<and> 1 \<le> length k \<and> length k < 5"
  unfolding candidate_keys_def
  by (auto simp del: keys_of_length.simps dest!: keys_of_length_elem)

lemma candidate_keys_hd: "\<exists>ks. candidate_keys = ''a'' # ks"
proof -
  have "keys_of_length 1 \<noteq> []" "hd (keys_of_length 1) = ''a''"
    using keys_of_length_chained [of 1] by simp_all
  then show ?thesis
    unfolding candidate_keys_def by (cases "keys_of_length 1") simp_all
qed

lemma candidate_keys_last: "last candidate_keys = ''zzzz''"
proof -
  have "keys_of_length 4 \<noteq> []" "last (keys_of_length 4) = replicate 4 CHR ''z''"
    using keys_of_length_chained [of 4] by simp_all
  then show ?thesis
    unfolding candidate_keys_def by (simp add: eval_nat_numeral del: keys_of_length.simps)
qed

lemma candidate_key_no_colon: "k \<in> set candidate_keys \<Longrightarrow> CHR '':'' \<notin> set k"
proof -
  assume "k \<in> set candidate_keys"
  then have "set k \<subseteq> set alphabet"
    unfolding candidate_keys_def
    by (auto simp: keys_of_length_n_lists set_n_lists simp del: keys_of_length.simps)
  moreover have "CHR '':'' \<notin> set alphabet" by (simp add: alphabet_def)
  ultimately show ?thesis by blast
qed

lemma length_keys_of_length: "length (keys_of_length n) = 26 ^ n"
proof -
  have "length alphabet = 26" by (simp add: alphabet_def)
  then show ?thesis by (simp add: keys_of_length_n_lists length_n_lists)
qed

lemma length_candidate_keys: "length candidate_keys = 475254"
  unfolding candidate_keys_def length_append length_keys_of_length by simp

lemma distinct_alphabet: "distinct alphabet"
  by (simp add: alphabet_def)

lemma distinct_candidate_keys: "distinct candidate_keys"
proof -
  have d: "distinct (keys_of_length n)" for n
    by (simp add: keys_of_length_n_lists distinct_n_lists distinct_alphabet)
  have l: "k \<in> set (keys_of_length n) \<Longrightarrow> length k = n" for k n
    by (simp add: keys_of_length_elem)
  have "set (keys_of_length m) \<inter> set (keys_of_length n) = {}" if "m \<noteq> n" for m n
    using that l by blast
  then show ?thesis
    unfolding candidate_keys_def by (simp add: d Int_Un_distrib del: keys_of_length.simps)
qed

lemma keys_of_length_1: "keys_of_length 1 = map (\<lambda>c. [c]) alphabet"
  by simp

lemma candidate_keys_start:
  "\<exists>ks. candidate_keys = map (\<lambda>c. [c]) alphabet @ ''aa'' # ''ba'' # ''ca'' # ks"
  unfolding candidate_keys_def
  by (simp add: numeral_2_eq_2 alphabet_def del: keys_of_length.simps(2))
     (simp add: alphabet_def)

lemma keys_of_length_2_prefix: "\<exists>ks. keys_of_length 2 = ''aa'' # ''ba'' # ks"
  by (simp add: numeral_2_eq_2 alphabet_def)

subsection \<open>The loop follows the chain\<close>

lemma bump_padded:
  "NUL \<notin> set k \<Longrightarrow>
   bump (k @ NUL # pad) =
     Some (next_key k @ (if length (next_key k) = length k then NUL # pad else pad),
           length (next_key k) \<noteq> length k)"
proof (induction k)
  case Nil
  then show ?case by simp
next
  case (Cons c k)
  then have "c \<noteq> NUL" and IH: "bump (k @ NUL # pad) =
     Some (next_key k @ (if length (next_key k) = length k then NUL # pad else pad),
           length (next_key k) \<noteq> length k)"
    by auto
  then show ?case by simp
qed

lemma find_dummy_key_loop_full: "find_dummy_key_loop p dummy 5 = Inr None"
  by (simp add: find_dummy_key_loop.simps)

lemma find_dummy_key_loop_step:
  assumes "NUL \<notin> set k" and "length k < 5"
  shows "find_dummy_key_loop p (k @ replicate (5 - length k) NUL) (length k) =
     (if \<not> p k then Inr (Some k)
      else find_dummy_key_loop p (next_key k @ replicate (5 - length (next_key k)) NUL)
             (length (next_key k)))"
proof -
  from assms(2) have pad: "replicate (5 - length k) NUL = NUL # replicate (4 - length k) NUL"
    by (cases "5 - length k") (simp_all add: Suc_diff_Suc)
  have same: "length (next_key k) = length k \<Longrightarrow>
      NUL # replicate (4 - length k) NUL = replicate (5 - length (next_key k)) NUL"
    using pad by simp
  have grown: "length (next_key k) \<noteq> length k \<Longrightarrow>
      replicate (4 - length k) NUL = replicate (5 - length (next_key k)) NUL
      \<and> length (next_key k) = length k + 1"
    using length_next_key [of k] by auto
  have b: "bump (k @ replicate (5 - length k) NUL) =
      Some (next_key k @ replicate (5 - length (next_key k)) NUL, length (next_key k) \<noteq> length k)"
    unfolding pad bump_padded [OF assms(1)] using same grown by auto
  show ?thesis
    by (subst find_dummy_key_loop.simps)
       (use assms(2) grown in \<open>auto simp add: b rb_str_new_def Let_def\<close>)
qed

lemma find_dummy_key_loop_chained:
  assumes "chained (k # ks)"
    and "\<forall>x \<in> set (k # ks). NUL \<notin> set x \<and> length x < 5"
    and "length (next_key (last (k # ks))) = 5"
  shows "find_dummy_key_loop p (k @ replicate (5 - length k) NUL) (length k)
         = Inr (find (\<lambda>x. \<not> p x) (k # ks))"
  using assms
proof (induction ks arbitrary: k)
  case Nil
  then have "NUL \<notin> set k" "length k < 5" "length (next_key k) = 5" by simp_all
  then show ?case
    by (simp add: find_dummy_key_loop_step find_dummy_key_loop_full)
next
  case (Cons k' ks)
  then have k: "NUL \<notin> set k" "length k < 5" and k': "k' = next_key k" by simp_all
  from Cons.prems have c: "chained (k' # ks)"
    and a: "\<forall>x \<in> set (k' # ks). NUL \<notin> set x \<and> length x < 5"
    and l: "length (next_key (last (k' # ks))) = 5"
    by auto
  have "find_dummy_key_loop p (k' @ replicate (5 - length k') NUL) (length k')
         = Inr (find (\<lambda>x. \<not> p x) (k' # ks))"
    by (rule Cons.IH [OF c a l])
  with k k' show ?case
    by (simp add: find_dummy_key_loop_step)
qed

lemma find_dummy_key_loop_candidates:
  "find_dummy_key_loop p dummy_init 1 = Inr (find (\<lambda>k. \<not> p k) candidate_keys)"
proof -
  obtain ks where ks: "candidate_keys = ''a'' # ks"
    using candidate_keys_hd by blast
  have "find_dummy_key_loop p (''a'' @ replicate (5 - length ''a'') NUL) (length ''a'')
         = Inr (find (\<lambda>x. \<not> p x) (''a'' # ks))"
  proof (rule find_dummy_key_loop_chained)
    show "chained (''a'' # ks)"
      using candidate_keys_chained by (simp only: ks)
    show "\<forall>x \<in> set (''a'' # ks). NUL \<notin> set x \<and> length x < 5"
      using candidate_keys_elem by (auto simp only: ks)
    have "last (''a'' # ks) = ''zzzz''"
      using candidate_keys_last by (simp only: ks)
    then show "length (next_key (last (''a'' # ks))) = 5"
      by (simp only:) simp
  qed
  then show ?thesis
    by (simp add: ks dummy_init_def eval_nat_numeral)
qed

lemma find_dummy_key_loop_in_bounds:
  "find_dummy_key_loop p dummy_init 1 \<noteq> Inl f"
  by (simp only: find_dummy_key_loop_candidates) simp

lemma find_dummy_key_candidates:
  "find_dummy_key ops collection = find (\<lambda>k. \<not> key_p ops collection k) candidate_keys"
  unfolding find_dummy_key_def find_dummy_key_loop_candidates by simp

lemma find_append_case:
  "find P (xs @ ys) = (case find P xs of None \<Rightarrow> find P ys | Some x \<Rightarrow> Some x)"
  by (induction xs) simp_all

lemma find_candidate_keys_1:
  "find P (keys_of_length 1) = Some k \<Longrightarrow> find P candidate_keys = Some k"
  unfolding candidate_keys_def find_append_case by simp

lemma find_candidate_keys_2:
  "find P (keys_of_length 1) = None \<Longrightarrow> find P (keys_of_length 2) = Some k
   \<Longrightarrow> find P candidate_keys = Some k"
  unfolding candidate_keys_def find_append_case by simp

lemma find_dummy_key_Some:
  assumes "find_dummy_key ops node = Some dummy"
  shows "\<not> key_p ops node dummy \<and> dummy \<in> set candidate_keys \<and> CHR '':'' \<notin> set dummy"
proof -
  from assms have f: "find (\<lambda>k. \<not> key_p ops node k) candidate_keys = Some dummy"
    by (simp add: find_dummy_key_candidates)
  then have free: "\<not> key_p ops node dummy" and mem: "dummy \<in> set candidate_keys"
    by (auto simp: find_Some_iff)
  from mem have "set dummy \<subseteq> set alphabet"
    unfolding candidate_keys_def
    by (auto simp: keys_of_length_n_lists set_n_lists simp del: keys_of_length.simps)
  moreover have "CHR '':'' \<notin> set alphabet" by (simp add: alphabet_def)
  ultimately show ?thesis using free mem by blast
qed

lemma find_dummy_key_None:
  assumes "find_dummy_key ops node = None"
  shows "\<forall>k \<in> set candidate_keys. key_p ops node k"
  using assms by (simp add: find_dummy_key_candidates find_None_iff)

lemma find_dummy_key_None_nokogiri:
  assumes "find_dummy_key nokogiri node = None"
  shows "475254 \<le> card (fst ` set (attributes_of node))"
proof -
  from find_dummy_key_None [OF assms]
  have "set candidate_keys \<subseteq> fst ` set (attributes_of node)"
    by (auto simp: nokogiri_def)
  then have "card (set candidate_keys) \<le> card (fst ` set (attributes_of node))"
    by (intro card_mono) simp_all
  then show ?thesis
    by (simp add: distinct_card [OF distinct_candidate_keys] length_candidate_keys)
qed

lemma find_dummy_key_nokogiri_small:
  "card (fst ` set (attributes_of node)) < 475254 \<Longrightarrow> find_dummy_key nokogiri node \<noteq> None"
  using find_dummy_key_None_nokogiri [of node] by auto

lemma find_dummy_key_full_element: "find_dummy_key nokogiri full_element = None"
  by (simp add: find_dummy_key_candidates find_None_iff nokogiri_def full_element_def image_iff)

section \<open>Facts about attribute installation\<close>

lemma split_qname_None [simp]: "CHR '':'' \<notin> set k \<Longrightarrow> split_qname k = None"
  by (cases k) (simp_all add: split_qname_def)

lemma upsert_fresh: "k \<notin> fst ` set as \<Longrightarrow> upsert k v as = as @ [(k, v)]"
  by (induction as) auto

lemma map_fst_upsert:
  "map fst (upsert k v as) = (if k \<in> fst ` set as then map fst as else map fst as @ [k])"
proof (induction as)
  case Nil
  then show ?case by simp
next
  case (Cons a as)
  obtain k' v' where a: "a = (k', v')" by (cases a)
  show ?case
  proof (cases "k' = k")
    case True
    then show ?thesis by (simp add: a)
  next
    case False
    with Cons show ?thesis by (simp add: a)
  qed
qed

lemma set_upsert: "fst ` set (upsert k v as) = insert k (fst ` set as)"
proof -
  have "set (map fst (upsert k v as)) = insert k (fst ` set as)"
    unfolding map_fst_upsert by auto
  then show ?thesis by simp
qed

lemma index_of_last:
  "k \<notin> fst ` set as \<Longrightarrow> index_of k (as @ [(k, v)]) = Some (length as)"
  by (induction as) auto

lemma rename_at_last: "rename_at (length as) q (as @ [(k, v)]) = as @ [(q, v)]"
  by (simp add: rename_at_def)

lemma xmlNewProp_c_str:
  "c_str name = c_str name' \<Longrightarrow> xmlNewProp ops node name val = xmlNewProp ops node name' val"
  by (simp add: xmlNewProp_def take_strlen rb_str_new_strlen)

lemma xmlNewProp_colon:
  assumes "CHR '':'' \<in> set (c_str name)"
  shows "xmlNewProp ops node name val =
     (case find_dummy_key ops node of
        None \<Rightarrow> (Qnil, node)
      | Some dummy \<Rightarrow>
          (case set_attribute ops node dummy (c_str val) of
             (r_value, node1) \<Rightarrow>
               if r_value = Qnil then (Qnil, node1)
               else if attribute ops (remove_attribute ops node1 (c_str name)) dummy = Qnil
               then (Qnil, remove_attribute ops node1 (c_str name))
               else (attribute ops (remove_attribute ops node1 (c_str name)) dummy,
                     node_name_set ops (remove_attribute ops node1 (c_str name))
                       (attribute ops (remove_attribute ops node1 (c_str name)) dummy)
                       (c_str name))))"
  using assms
  by (simp add: xmlNewProp_def Let_def take_strlen rb_str_new_strlen rb_str_new2_c_str
      split: option.splits prod.splits)

lemma xmlNewProp_nokogiri:
  "xmlNewProp nokogiri (XmlElement n as nas cs) name val =
     (if CHR '':'' \<notin> set (c_str name)
      then (RString (c_str val), XmlElement n (upsert (c_str name) (c_str val) as) nas cs)
      else if find_dummy_key nokogiri (XmlElement n as nas cs) = None
      then (Qnil, XmlElement n as nas cs)
      else (RAttr (length (filter (\<lambda>(k, v). k \<noteq> c_str name) as)),
            XmlElement n (filter (\<lambda>(k, v). k \<noteq> c_str name) as @ [(c_str name, c_str val)]) nas cs))"
proof (cases "CHR '':'' \<notin> set (c_str name)")
  case True
  then show ?thesis
    by (simp add: xmlNewProp_def Let_def take_strlen rb_str_new_strlen rb_str_new2_c_str nokogiri_def)
next
  case colon: False
  show ?thesis
  proof (cases "find_dummy_key nokogiri (XmlElement n as nas cs)")
    case None
    with colon show ?thesis
      by (simp add: xmlNewProp_def Let_def take_strlen)
  next
    case (Some dummy)
    from find_dummy_key_Some [OF Some] have fresh: "dummy \<notin> fst ` set as"
      and nocolon: "CHR '':'' \<notin> set dummy"
      by (auto simp: nokogiri_def)
    from colon nocolon have ne: "dummy \<noteq> c_str name" by auto
    let ?kept = "filter (\<lambda>(k, v). k \<noteq> c_str name) as"
    have fresh': "dummy \<notin> fst ` set ?kept" using fresh by auto
    have at_end: "index_of dummy (?kept @ [(dummy, c_str val)]) = Some (length ?kept)"
      by (rule index_of_last [OF fresh'])
    have plain: "split_qname dummy = None"
      using nocolon by (rule split_qname_None)
    with colon Some ne at_end show ?thesis
      by (simp add: xmlNewProp_def Let_def take_strlen rb_str_new_strlen rb_str_new2_c_str
          nokogiri_def plain upsert_fresh [OF fresh] rename_at_last)
  qed
qed

lemma NUL_not_in_prefix: "NUL \<notin> set (spec_ns_prefix attr)"
  by (cases "attr_namespace attr") (simp_all add: spec_ns_prefix_def NUL_def)

lemma qualified_name_no_NUL: "NUL \<notin> set (spec_qualified_name attr)"
  by (simp add: spec_qualified_name_def NUL_not_in_prefix c_str_no_NUL)

lemma install_attribute_qualified_name:
  "install_attribute ops element attr =
     xmlNewProp ops element (spec_qualified_name attr) (attr_value attr)"
proof -
  have q: "c_str (spec_qualified_name attr) = spec_qualified_name attr"
    by (rule c_str_id [OF qualified_name_no_NUL])
  have t: "c_str (spec_ns_prefix attr @ c_str (attr_name attr) @ [NUL]) = spec_qualified_name attr"
    using c_str_terminated [of "spec_qualified_name attr" "[]"] qualified_name_no_NUL [of attr]
    by (simp add: spec_qualified_name_def)
  show ?thesis
  proof (cases "attribute_ns attr")
    case None
    then have "spec_ns_prefix attr = []"
      by (cases "attr_namespace attr")
         (simp_all add: attribute_ns_def spec_ns_prefix_def c_str_xmlns split: if_splits)
    then have "c_str (attr_name attr) = c_str (spec_qualified_name attr)"
      by (simp add: spec_qualified_name_def)
    then have "xmlNewProp ops element (attr_name attr) (attr_value attr)
        = xmlNewProp ops element (spec_qualified_name attr) (attr_value attr)"
      by (rule xmlNewProp_c_str)
    with None show ?thesis
      by (simp add: install_attribute_def)
  next
    case (Some ns)
    then have "ns = spec_ns_prefix attr"
      by (cases "attr_namespace attr")
         (simp_all add: attribute_ns_def spec_ns_prefix_def c_str_xmlns split: if_splits)
    moreover from t q have "xmlNewProp ops element
          (spec_ns_prefix attr @ c_str (attr_name attr) @ [NUL]) (attr_value attr)
        = xmlNewProp ops element (spec_qualified_name attr) (attr_value attr)"
      by (intro xmlNewProp_c_str) simp
    ultimately show ?thesis using Some
      by (simp add: install_attribute_def)
  qed
qed

lemma install_attribute_nokogiri:
  "install_attribute nokogiri (XmlElement n as nas cs) attr =
     (if CHR '':'' \<in> set (spec_qualified_name attr) \<and> find_dummy_key nokogiri (XmlElement n as nas cs) = None
      then (Qnil, XmlElement n as nas cs)
      else (if CHR '':'' \<in> set (spec_qualified_name attr)
            then RAttr (length (filter (\<lambda>(k, v). k \<noteq> spec_qualified_name attr) as))
            else RString (c_str (attr_value attr)),
            XmlElement n (installed (spec_qualified_name attr) (c_str (attr_value attr)) as) nas cs))"
  unfolding install_attribute_qualified_name xmlNewProp_nokogiri
  by (simp add: installed_def c_str_id [OF qualified_name_no_NUL])

lemma set_installed: "fst ` set (installed q v as) = insert q (fst ` set as)"
proof (cases "CHR '':'' \<in> set q")
  case True
  have "fst ` set (filter (\<lambda>(k, v'). k \<noteq> q) as) = fst ` set as - {q}"
    by (induction as) auto
  with True show ?thesis by (auto simp: installed_def)
next
  case False
  then show ?thesis by (simp add: installed_def set_upsert)
qed

lemma installed_fresh: "q \<notin> fst ` set as \<Longrightarrow> installed q v as = as @ [(q, v)]"
proof -
  assume fresh: "q \<notin> fst ` set as"
  then have "filter (\<lambda>(k, v'). k \<noteq> q) as = as"
    by (induction as) auto
  with fresh show ?thesis by (simp add: installed_def upsert_fresh)
qed

lemma map_fst_installed:
  "map fst (installed q v as) =
     (if CHR '':'' \<in> set q then filter (\<lambda>k. k \<noteq> q) (map fst as) @ [q]
      else if q \<in> fst ` set as then map fst as
      else map fst as @ [q])"
proof -
  have "map fst (filter (\<lambda>(k, v'). k \<noteq> q) as) = filter (\<lambda>k. k \<noteq> q) (map fst as)"
    by (induction as) auto
  then show ?thesis by (simp add: installed_def map_fst_upsert)
qed

lemma subseq_installed:
  assumes "subseq (map fst as) xs"
  shows "subseq (map fst (installed q v as)) (xs @ [q])"
proof -
  have "subseq (filter (\<lambda>k. k \<noteq> q) (map fst as)) xs"
    using subseq_filter_left assms by (rule subseq_order.trans)
  then have a: "subseq (filter (\<lambda>k. k \<noteq> q) (map fst as) @ [q]) (xs @ [q])"
    by (rule list_emb_append_mono) simp
  from assms have b: "subseq (map fst as @ [q]) (xs @ [q])"
    by (rule list_emb_append_mono) simp
  from assms have c: "subseq (map fst as) (xs @ [q])"
    by (rule list_emb_prefix)
  from a b c show ?thesis by (simp add: map_fst_installed)
qed

lemma filter_installed_count:
  "length (filter (\<lambda>(k, v). k = q) (filter (\<lambda>(k, v). k \<noteq> q) as @ [(q, v)])) = 1"
proof -
  have "filter (\<lambda>(k, v). k = q) (filter (\<lambda>(k, v). k \<noteq> q) as) = []"
    by (induction as) auto
  then show ?thesis by simp
qed

lemma map_of_installed:
  "map_of (filter (\<lambda>(k, v). k \<noteq> q) as @ [(q, v)]) q = Some v"
proof -
  have "map_of (filter (\<lambda>(k, v). k \<noteq> q) as) q = None"
    by (induction as) auto
  then show ?thesis by (simp add: map_add_def)
qed

text \<open>
The attribute loop on the modelled DOM, whatever the number of attributes.
\<close>

lemma walk_attributes_nokogiri:
  "\<exists>as'. walk_attributes nokogiri (XmlElement n as nas cs) attrs = XmlElement n as' nas cs
     \<and> fst ` set as' \<subseteq> fst ` set as \<union> spec_qualified_name ` set attrs
     \<and> (subseq (map fst as) xs \<longrightarrow> subseq (map fst as') (xs @ map spec_qualified_name attrs))"
proof (induction attrs arbitrary: as xs)
  case Nil
  then show ?case by simp
next
  case (Cons attr attrs)
  let ?q = "spec_qualified_name attr"
  let ?v = "c_str (attr_value attr)"
  define as1 where "as1 = attributes_of (snd (install_attribute nokogiri (XmlElement n as nas cs) attr))"
  have step: "snd (install_attribute nokogiri (XmlElement n as nas cs) attr) = XmlElement n as1 nas cs"
    and as1: "as1 = as \<or> as1 = installed ?q ?v as"
    unfolding as1_def by (auto simp: install_attribute_nokogiri)
  have keys: "fst ` set as1 \<subseteq> insert ?q (fst ` set as)"
    by (rule disjE [OF as1]) (simp_all add: set_installed subset_insertI)
  from as1 have sub: "subseq (map fst as) xs \<Longrightarrow> subseq (map fst as1) (xs @ [?q])"
    using subseq_installed [of as xs ?q ?v] by (auto intro: list_emb_prefix)
  from Cons.IH [of as1 "xs @ [?q]"] obtain as' where
    w: "walk_attributes nokogiri (XmlElement n as1 nas cs) attrs = XmlElement n as' nas cs"
    and k: "fst ` set as' \<subseteq> fst ` set as1 \<union> spec_qualified_name ` set attrs"
    and s: "subseq (map fst as1) (xs @ [?q]) \<longrightarrow> subseq (map fst as') ((xs @ [?q]) @ map spec_qualified_name attrs)"
    by blast
  show ?case
  proof (intro exI conjI impI)
    show "walk_attributes nokogiri (XmlElement n as nas cs) (attr # attrs) = XmlElement n as' nas cs"
      using step w by simp
    show "fst ` set as' \<subseteq> fst ` set as \<union> spec_qualified_name ` set (attr # attrs)"
      using k keys by auto
    assume "subseq (map fst as) xs"
    with sub s show "subseq (map fst as') (xs @ map spec_qualified_name (attr # attrs))"
      by simp
  qed
qed

text \<open>
The attribute loop while a dummy key is left: every attribute is installed.
\<close>

lemma walk_attributes_nokogiri_installed:
  assumes "card (fst ` set as) + length attrs < 475254"
  shows "walk_attributes nokogiri (XmlElement n as nas cs) attrs =
     XmlElement n (foldl (\<lambda>as attr. installed (spec_qualified_name attr) (c_str (attr_value attr)) as)
                  as attrs) nas cs"
  using assms
proof (induction attrs arbitrary: as)
  case Nil
  then show ?case by simp
next
  case (Cons attr attrs)
  let ?q = "spec_qualified_name attr"
  let ?v = "c_str (attr_value attr)"
  from Cons.prems have "card (fst ` set as) < 475254" by simp
  with find_dummy_key_None_nokogiri [of "XmlElement n as nas cs"]
  have "find_dummy_key nokogiri (XmlElement n as nas cs) \<noteq> None" by auto
  then have step: "snd (install_attribute nokogiri (XmlElement n as nas cs) attr)
      = XmlElement n (installed ?q ?v as) nas cs"
    by (auto simp: install_attribute_nokogiri)
  have "card (fst ` set (installed ?q ?v as)) \<le> Suc (card (fst ` set as))"
    unfolding set_installed by (simp add: card_insert_if)
  with Cons.prems have "card (fst ` set (installed ?q ?v as)) + length attrs < 475254"
    by simp
  from Cons.IH [OF this] step show ?case by simp
qed

lemma foldl_installed_distinct:
  assumes "distinct (map fst as @ map spec_qualified_name attrs)"
  shows "foldl (\<lambda>as attr. installed (spec_qualified_name attr) (c_str (attr_value attr)) as) as attrs
         = as @ map (\<lambda>attr. (spec_qualified_name attr, c_str (attr_value attr))) attrs"
  using assms
proof (induction attrs arbitrary: as)
  case Nil
  then show ?case by simp
next
  case (Cons attr attrs)
  then have fresh: "spec_qualified_name attr \<notin> fst ` set as" by auto
  from Cons.prems have "distinct (map fst (as @ [(spec_qualified_name attr, c_str (attr_value attr))])
      @ map spec_qualified_name attrs)"
    by auto
  from Cons.IH [OF this] show ?case
    by (simp add: installed_fresh [OF fresh])
qed

lemma foldl_installed_keys:
  "fst ` set (foldl (\<lambda>as attr. installed (spec_qualified_name attr) (c_str (attr_value attr)) as) as attrs)
   = fst ` set as \<union> spec_qualified_name ` set attrs"
  by (induction attrs arbitrary: as) (auto simp: set_installed)

section \<open>Facts about the tree walk\<close>

lemma c_int_small: "n < 2 ^ 31 \<Longrightarrow> c_int n = int n"
  by (simp add: c_int_def Let_def)

lemma xmlNewCDataBlock_small:
  "strlen text < 2 ^ 31 \<Longrightarrow>
   xmlNewCDataBlock doc text (c_int (strlen text)) = Inr (CDATA (c_str text))"
  by (simp add: c_int_small xmlNewCDataBlock_def rb_str_new_strlen)


lemma xmlAddChild_Some: "\<exists>element'. xmlAddChild element (Some node) = Inr element'"
  by (cases element) simp_all


lemma nonzero [simp]: "nonzero node"
  by (simp add: nonzero_def split: option.splits)

lemma walk_children_document:
  "walk_children ops doc element (GUMBO_NODE_DOCUMENT # children) = Inl ArgumentError"
  by simp

lemma walk_children_nodes:
  "map (walk_tree ops doc) children = map (\<lambda>node. Inr (Some node)) nodes \<Longrightarrow>
   walk_children ops doc (XmlElement n as nas cs) children = Inr (XmlElement n as nas (cs @ nodes))"
proof (induction children arbitrary: cs nodes)
  case Nil
  then show ?case by simp
next
  case (Cons child children)
  then obtain node rest where nodes: "nodes = node # rest"
    and child: "walk_tree ops doc child = Inr (Some node)"
    and rest: "map (walk_tree ops doc) children = map (\<lambda>node. Inr (Some node)) rest"
    by (cases nodes) auto
  from Cons.IH [OF rest, of "cs @ [node]"] child nodes show ?case by simp
qed

lemma walk_children_Inr:
  "walk_children ops doc (XmlElement n as nas cs) children = Inr built \<Longrightarrow>
   \<exists>nodes. map (walk_tree ops doc) children = map (\<lambda>node. Inr (Some node)) nodes
     \<and> built = XmlElement n as nas (cs @ nodes)"
proof (induction children arbitrary: cs)
  case Nil
  then show ?case by simp
next
  case (Cons child children)
  from Cons.prems obtain x where x: "walk_tree ops doc child = Inr x"
    by (cases "walk_tree ops doc child") simp_all
  from Cons.prems x obtain node where some: "x = Some node"
    by (cases x) simp_all
  from x some have child: "walk_tree ops doc child = Inr (Some node)" by simp
  from Cons.prems child
  have rest: "walk_children ops doc (XmlElement n as nas (cs @ [node])) children = Inr built"
    by simp
  from Cons.IH [OF rest] obtain nodes where
    "map (walk_tree ops doc) children = map (\<lambda>node. Inr (Some node)) nodes"
    "built = XmlElement n as nas ((cs @ [node]) @ nodes)"
    by blast
  with child have "map (walk_tree ops doc) (child # children)
      = map (\<lambda>node. Inr (Some node)) (node # nodes)
    \<and> built = XmlElement n as nas (cs @ node # nodes)"
    by simp
  then show ?case by blast
qed


lemma walk_returns:
  "walkable_node node \<Longrightarrow> \<exists>x. walk_tree ops doc node = Inr (Some x)"
  "walkable_element e \<Longrightarrow> \<exists>x. walk_element ops doc e = Inr x"
  "walkable_nodes children \<Longrightarrow> \<exists>x. walk_children ops doc element children = Inr x"
proof (induction ops doc node and ops doc e and ops doc element children
    rule: walk_tree_walk_element_walk_children.induct)
  case (6 ops doc payload)
  then show ?case by (simp add: xmlNewCDataBlock_small)
next
  case (10 ops doc element child children)
  then obtain node where child: "walk_tree ops doc child = Inr (Some node)" by auto
  obtain element' where added: "xmlAddChild element (Some node) = Inr element'"
    using xmlAddChild_Some by blast
  from 10 child added show ?case by simp
qed auto

lemma walk_element_nokogiri:
  "\<exists>as'. walk_attributes nokogiri (Element (c_str name) [] []) attrs = Element (c_str name) as' []
     \<and> walk_element nokogiri doc (GumboElement name attrs children)
         = walk_children nokogiri doc (Element (c_str name) as' []) children"
proof -
  from walk_attributes_nokogiri [where n = "c_str name" and as = "[]" and nas = "[]" and cs = "[]"
      and attrs = attrs and xs = "[]"]
  obtain as' where "walk_attributes nokogiri (Element (c_str name) [] []) attrs
      = Element (c_str name) as' []"
    by blast
  then show ?thesis
    by (simp add: xmlNewDocNode_def rb_str_new2_c_str)
qed

text \<open>
  What \<open>walk_element\<close> returns on the modelled DOM, when it returns: the attributes the
  attribute loop leaves, no attribute in a namespace, and the nodes of the children in
  their order.
\<close>

lemma walk_element_nokogiri_Inr:
  assumes "walk_element nokogiri doc (GumboElement name attrs children) = Inr built"
  shows "\<exists>as' nodes.
      walk_attributes nokogiri (Element (c_str name) [] []) attrs = Element (c_str name) as' []
    \<and> map (walk_tree nokogiri doc) children = map (\<lambda>node. Inr (Some node)) nodes
    \<and> built = Element (c_str name) as' nodes"
proof -
  from walk_element_nokogiri [of name attrs doc children] obtain as' where
    a: "walk_attributes nokogiri (Element (c_str name) [] []) attrs = Element (c_str name) as' []"
    and w: "walk_element nokogiri doc (GumboElement name attrs children)
         = walk_children nokogiri doc (Element (c_str name) as' []) children"
    by blast
  from assms w have "walk_children nokogiri doc (Element (c_str name) as' []) children = Inr built"
    by simp
  from walk_children_Inr [OF this] a show ?thesis by auto
qed

lemma set_attribute_nokogiri_prefix:
  "set_attribute nokogiri (Element ''svg'' [] []) ''xml:lang'' ''en''
     = (RString ''en'', XmlElement ''svg'' [] [(''xml'', ''lang'', ''en'')] [])"
  by (simp add: nokogiri_def split_qname_def has_namespace_def)

lemma walk_tree_cdata_negative:
  assumes "2 ^ 31 \<le> strlen payload" and "strlen payload < 2 ^ 32"
  shows "walk_tree ops doc (GUMBO_NODE_CDATA payload) = Inl ArgumentError"
proof -
  from assms have "c_int (strlen payload) < 0"
    by (simp add: c_int_def Let_def)
  then show ?thesis by (simp add: xmlNewCDataBlock_def)
qed

lemma walk_element_in_order:
  assumes "walk_element nokogiri doc el = Inr built"
  shows "subseq (map fst (attributes_of built)) (map spec_qualified_name (element_attributes el))"
    and "fst ` set (attributes_of built) \<subseteq> spec_qualified_name ` set (element_attributes el)"
    and "length (element_attributes el) < 475254 \<Longrightarrow>
         fst ` set (attributes_of built) = spec_qualified_name ` set (element_attributes el)"
    and "distinct (map spec_qualified_name (element_attributes el)) \<Longrightarrow>
         length (element_attributes el) < 475254 \<Longrightarrow>
         attributes_of built
           = map (\<lambda>attr. (spec_qualified_name attr, c_str (attr_value attr))) (element_attributes el)"
    and "map (walk_tree nokogiri doc) (element_children el)
           = map (\<lambda>node. Inr (Some node)) (children_of built)"
    and "built = Element (c_str (element_name el)) (attributes_of built) (children_of built)"
proof -
  obtain name attrs children where el: "el = GumboElement name attrs children"
    by (cases el)
  from walk_element_nokogiri_Inr [OF assms [unfolded el]] obtain as' nodes where
    a: "walk_attributes nokogiri (Element (c_str name) [] []) attrs = Element (c_str name) as' []"
    and c: "map (walk_tree nokogiri doc) children = map (\<lambda>node. Inr (Some node)) nodes"
    and b: "built = Element (c_str name) as' nodes"
    by blast
  have built: "attributes_of built = as'" "children_of built = nodes"
    by (simp_all add: b)
  have parts: "element_attributes el = attrs" "element_children el = children"
    "element_name el = name"
    by (simp_all add: el)
  from walk_attributes_nokogiri [where n = "c_str name" and as = "[]" and nas = "[]" and cs = "[]"
      and attrs = attrs and xs = "[]"] a
  have sub: "subseq (map fst as') (map spec_qualified_name attrs)"
    and keys: "fst ` set as' \<subseteq> spec_qualified_name ` set attrs"
    by simp_all
  from sub show "subseq (map fst (attributes_of built))
      (map spec_qualified_name (element_attributes el))"
    by (simp only: built parts)
  from keys show "fst ` set (attributes_of built)
      \<subseteq> spec_qualified_name ` set (element_attributes el)"
    by (simp only: built parts)
  from c show "map (walk_tree nokogiri doc) (element_children el)
           = map (\<lambda>node. Inr (Some node)) (children_of built)"
    by (simp only: built parts)
  show "built = Element (c_str (element_name el)) (attributes_of built) (children_of built)"
    by (simp add: b el)
  have folded: "as' = foldl (\<lambda>as attr. installed (spec_qualified_name attr) (c_str (attr_value attr)) as)
                  [] attrs"
    if "length (element_attributes el) < 475254"
  proof -
    from that have "card (fst ` set ([] :: (string \<times> string) list)) + length attrs < 475254"
      by (simp add: parts)
    from walk_attributes_nokogiri_installed [OF this, where n = "c_str name" and nas = "[]"
        and cs = "[]"] a
    show ?thesis by simp
  qed
  show "fst ` set (attributes_of built) = spec_qualified_name ` set (element_attributes el)"
    if "length (element_attributes el) < 475254"
  proof -
    from folded [OF that] have "fst ` set as' = spec_qualified_name ` set attrs"
      by (simp add: foldl_installed_keys)
    then show ?thesis by (simp only: built parts)
  qed
  show "attributes_of built
      = map (\<lambda>attr. (spec_qualified_name attr, c_str (attr_value attr))) (element_attributes el)"
    if "distinct (map spec_qualified_name (element_attributes el))"
      and "length (element_attributes el) < 475254"
  proof -
    from that(1) have d: "distinct (map fst ([] :: (string \<times> string) list)
        @ map spec_qualified_name attrs)"
      by (simp add: parts)
    from foldl_installed_distinct [OF d] folded [OF that(2)]
    have "as' = map (\<lambda>attr. (spec_qualified_name attr, c_str (attr_value attr))) attrs"
      by simp
    then show ?thesis by (simp only: built parts)
  qed
qed

lemma example_element_names:
  "map spec_qualified_name (element_attributes example_element)
     = [''id'', ''xlink:href'', ''xml:lang'', ''xmlns'', ''xmlns:xlink'']"
  by (simp add: example_element_def spec_qualified_name_def spec_ns_prefix_def c_str_def NUL_def)

lemma example_element_built:
  "walk_element nokogiri (Document_new None None) example_element
     = Inr (Element ''svg''
         [(''id'', ''x''), (''xlink:href'', ''#a''), (''xml:lang'', ''en''), (''xmlns'', ''s''),
          (''xmlns:xlink'', ''l'')]
         [Text ''x'', Comment ''y''])"
proof -
  let ?doc = "Document_new None None"
  have "walkable_element example_element"
    by (simp add: example_element_def)
  then obtain built where b: "walk_element nokogiri ?doc example_element = Inr built"
    using walk_returns(2) by blast
  have d: "distinct (map spec_qualified_name (element_attributes example_element))"
    unfolding example_element_names by simp
  have small: "length (element_attributes example_element) < 475254"
    by (simp add: example_element_def)
  have "map (\<lambda>attr. (spec_qualified_name attr, c_str (attr_value attr)))
        (element_attributes example_element)
      = [(''id'', ''x''), (''xlink:href'', ''#a''), (''xml:lang'', ''en''), (''xmlns'', ''s''),
         (''xmlns:xlink'', ''l'')]"
    by (simp add: example_element_def spec_qualified_name_def spec_ns_prefix_def c_str_def NUL_def)
  with walk_element_in_order(4) [OF b d small]
  have as: "attributes_of built
      = [(''id'', ''x''), (''xlink:href'', ''#a''), (''xml:lang'', ''en''), (''xmlns'', ''s''),
         (''xmlns:xlink'', ''l'')]"
    by simp
  have "map (walk_tree nokogiri ?doc) (element_children example_element)
      = map (\<lambda>node. Inr (Some node)) [Text ''x'', Comment ''y'']"
    by (simp add: example_element_def xmlNewDocText_def xmlNewDocComment_def rb_str_new2_c_str
        c_str_def NUL_def)
  with walk_element_in_order(5) [OF b]
  have "map (\<lambda>node. (Inr (Some node) :: fault + xmlNode option)) (children_of built)
      = map (\<lambda>node. Inr (Some node)) [Text ''x'', Comment ''y'']"
    by simp
  then have cs: "children_of built = [Text ''x'', Comment ''y'']"
    by (simp add: map_eq_Cons_conv)
  have n: "c_str (element_name example_element) = ''svg''"
    by (simp add: example_element_def c_str_def NUL_def)
  from walk_element_in_order(6) [OF b] as cs n b show ?thesis by simp
qed

section \<open>Facts about the document and the driver\<close>

lemma xmlAddChild_doc_Inr:
  "(if i = r then xmlDocSetRootElement doc node else xmlAddChild_doc doc node) = Inr doc'
   \<Longrightarrow> iv_errors doc' = iv_errors doc \<and> internal_subset doc' = internal_subset doc"
  by (auto simp: xmlAddChild_doc_def xmlDocSetRootElement_def split: if_splits option.splits)


lemma xmlAddChild_doc_Some:
  "\<exists>doc'. (if i = r then xmlDocSetRootElement doc (Some node) else xmlAddChild_doc doc (Some node))
      = Inr doc'"
  by (simp add: xmlAddChild_doc_def xmlDocSetRootElement_def)

lemma parse_children_Inr:
  "parse_children ops r doc i children = Inr doc' \<Longrightarrow>
   iv_errors doc' = iv_errors doc \<and> internal_subset doc' = internal_subset doc"
proof (induction children arbitrary: doc i)
  case Nil
  then show ?case by simp
next
  case (Cons child children)
  from Cons.prems obtain node doc1 where
    added: "(if i = r then xmlDocSetRootElement doc node else xmlAddChild_doc doc node) = Inr doc1"
    and rest: "parse_children ops r doc1 (i + 1) children = Inr doc'"
    by (auto split: sum.splits)
  from Cons.IH [OF rest] xmlAddChild_doc_Inr [OF added] show ?case by simp
qed


lemma parse_children_returns:
  "walkable_nodes children \<Longrightarrow> \<exists>doc'. parse_children ops r doc i children = Inr doc'"
proof (induction children arbitrary: doc i)
  case Nil
  then show ?case by simp
next
  case (Cons child children)
  then obtain node where child: "walk_tree ops doc child = Inr (Some node)"
    using walk_returns(1) [of child ops doc] by auto
  obtain doc1 where added:
    "(if i = r then xmlDocSetRootElement doc (Some node) else xmlAddChild_doc doc (Some node))
       = Inr doc1"
    using xmlAddChild_doc_Some [of i r doc node] by blast
  from Cons.prems have "walkable_nodes children" by simp
  from Cons.IH [OF this, of doc1 "i + 1"] child added show ?case by simp
qed

lemma parse_unfold:
  "parse ops gumbo fmt input url m =
     (case synthesized (document (gumbo m input)) of
        Inl f \<Rightarrow> Inl f
      | Inr doc \<Rightarrow>
          (case parse_children ops (root (gumbo m input)) doc 0
                  (document_children (document (gumbo m input))) of
             Inl f \<Rightarrow> Inl f
           | Inr doc' \<Rightarrow>
               Inr (if errors (gumbo m input) \<noteq> []
                    then doc'\<lparr>iv_errors :=
                           Some (parse_errors fmt input url [] (errors (gumbo m input)))\<rparr>
                    else doc')))"
  unfolding parse_def synthesized_def Let_def Nokogiri_wrap_xml_document_def
  by (cases "has_doctype (document (gumbo m input))") (simp_all split: sum.split)

lemma parse_Inr:
  assumes "parse ops gumbo fmt input url m = Inr rdoc"
  shows "\<exists>doc. synthesized (document (gumbo m input)) = Inr doc
      \<and> internal_subset rdoc = internal_subset doc
      \<and> iv_errors rdoc =
          (if errors (gumbo m input) \<noteq> []
           then Some (parse_errors fmt input url [] (errors (gumbo m input)))
           else iv_errors doc)"
proof -
  from assms obtain doc doc' where s: "synthesized (document (gumbo m input)) = Inr doc"
    and c: "parse_children ops (root (gumbo m input)) doc 0
              (document_children (document (gumbo m input))) = Inr doc'"
    and r: "rdoc = (if errors (gumbo m input) \<noteq> []
                    then doc'\<lparr>iv_errors :=
                           Some (parse_errors fmt input url [] (errors (gumbo m input)))\<rparr>
                    else doc')"
    unfolding parse_unfold by (auto split: sum.splits)
  from parse_children_Inr [OF c] s r show ?thesis by auto
qed


lemma parse_returns:
  assumes "synthesized (document (gumbo m input)) = Inr doc"
    and "walkable_nodes (document_children (document (gumbo m input)))"
  shows "\<exists>rdoc. parse ops gumbo fmt input url m = Inr rdoc"
proof -
  from parse_children_returns [OF assms(2)] obtain doc' where
    "parse_children ops (root (gumbo m input)) doc 0
       (document_children (document (gumbo m input))) = Inr doc'"
    by blast
  with assms(1) show ?thesis unfolding parse_unfold by simp
qed


lemma new_html_doc_named:
  "\<exists>doc. new_html_doc (Some n) s p = Inr doc"
  by (auto simp: new_html_doc_def Document_new_def Let_def split: option.splits)

lemma new_html_doc_null:
  "\<exists>doc. new_html_doc None None None = Inr doc"
  by (simp add: new_html_doc_def Document_new_def Let_def)

lemma new_html_doc_fresh:
  "new_html_doc n s p = Inr doc \<Longrightarrow> iv_errors doc = None \<and> doc_children doc = []"
  by (auto simp: new_html_doc_def Document_new_def create_internal_subset_def Let_def
      split: if_splits option.splits)


lemma new_html_doc_renamed:
  "s \<noteq> None \<or> p \<noteq> None \<Longrightarrow>
   new_html_doc (Some name) s p
     = Inr (spec_patched_document (c_str name) (map_option c_str s) (map_option c_str p))"
  by (auto simp: new_html_doc_def spec_patched_document_def Document_new_def Let_def
      rb_str_new2_c_str map_option_case split: option.splits)

lemma synthesized_fresh: "synthesized d = Inr doc \<Longrightarrow> iv_errors doc = None"
  using new_html_doc_fresh by (auto simp: synthesized_def split: if_splits)


lemma parse_errors_map:
  "parse_errors fmt input url rerrors errs = rerrors @ map (syntax_error fmt input url) errs"
  by (induction errs arbitrary: rerrors) simp_all

lemma example_tree_walkable: "walkable_nodes example_tree"
  by (simp add: example_tree_def)

lemma example_parse_returns:
  "\<exists>rdoc. parse nokogiri (\<lambda>m s. example_output errs) example_message input url max_errors
             = Inr rdoc"
proof -
  have "\<exists>doc. synthesized (document (example_output errs)) = Inr doc"
    by (simp add: synthesized_def example_output_def new_html_doc_named)
  then obtain doc where "synthesized (document (example_output errs)) = Inr doc" ..
  moreover have "walkable_nodes (document_children (document (example_output errs)))"
    by (simp add: example_output_def example_tree_walkable)
  ultimately show ?thesis
    using parse_returns [where gumbo = "\<lambda>m s. example_output errs" and doc = doc]
    by simp
qed

lemma strict_parse_returns:
  "\<exists>rdoc. parse nokogiri (\<lambda>m s. strict_output) example_message input url max_errors = Inr rdoc"
proof -
  have "\<exists>doc. synthesized (document strict_output) = Inr doc"
    by (simp add: synthesized_def strict_output_def new_html_doc_named)
  then obtain doc where "synthesized (document strict_output) = Inr doc" ..
  moreover have "walkable_nodes (document_children (document strict_output))"
    by (simp add: strict_output_def example_tree_walkable)
  ultimately show ?thesis
    using parse_returns [where gumbo = "\<lambda>m s. strict_output" and doc = doc]
    by simp
qed

lemma parse_iv_errors:
  assumes "parse ops gumbo fmt input url m = Inr rdoc"
  shows "iv_errors rdoc =
     (if errors (gumbo m input) \<noteq> []
      then Some (map (syntax_error fmt input url) (errors (gumbo m input)))
      else None)"
proof -
  from parse_Inr [OF assms] obtain doc where
    s: "synthesized (document (gumbo m input)) = Inr doc"
    and e: "iv_errors rdoc =
          (if errors (gumbo m input) \<noteq> []
           then Some (parse_errors fmt input url [] (errors (gumbo m input)))
           else iv_errors doc)"
    by blast
  from synthesized_fresh [OF s] e show ?thesis
    by (simp add: parse_errors_map)
qed


section \<open>Qualified attribute names\<close>

text \<open>
  C1.  When \<open>walk_element\<close> returns an element, every attribute name on it is the
  qualified name of an attribute of the parse element: its name behind the prefix of its
  namespace category (none, \<open>xlink:\<close>, \<open>xml:\<close>, \<open>xmlns:\<close>; none for the XMLNS
  attribute named \<open>xmlns\<close>).  The name is on the element as written: no attribute of the
  element was filed under a namespace and a local name by the setter.  With fewer than
  475254 attributes the names on the built element are exactly the qualified names.  For
  every DOM layer, installing an attribute is \<open>xmlNewProp\<close> of its qualified name.
\<close>

theorem walk_element_qualified_names:
  assumes "walk_element nokogiri doc el = Inr built"
  shows "fst ` set (attributes_of built) \<subseteq> spec_qualified_name ` set (element_attributes el)
       \<and> ns_attributes_of built = []
       \<and> (length (element_attributes el) < 475254 \<longrightarrow>
            fst ` set (attributes_of built) = spec_qualified_name ` set (element_attributes el))
       \<and> (\<forall>attr. install_attribute ops element attr
              = xmlNewProp ops element (spec_qualified_name attr) (attr_value attr))"
proof (intro conjI impI allI)
  show "fst ` set (attributes_of built) \<subseteq> spec_qualified_name ` set (element_attributes el)"
    by (rule walk_element_in_order(2) [OF assms])
  have "ns_attributes_of
      (Element (c_str (element_name el)) (attributes_of built) (children_of built)) = []"
    by simp
  with walk_element_in_order(6) [OF assms] show "ns_attributes_of built = []"
    by simp
  show "fst ` set (attributes_of built) = spec_qualified_name ` set (element_attributes el)"
    if "length (element_attributes el) < 475254"
    using that by (rule walk_element_in_order(3) [OF assms])
  show "install_attribute ops element attr
          = xmlNewProp ops element (spec_qualified_name attr) (attr_value attr)" for attr
    by (rule install_attribute_qualified_name)
qed

theorem walk_element_qualified_names_witness:
  "walk_element nokogiri (Document_new None None) example_element
     = Inr (Element ''svg''
         [(''id'', ''x''), (''xlink:href'', ''#a''), (''xml:lang'', ''en''), (''xmlns'', ''s''),
          (''xmlns:xlink'', ''l'')]
         [Text ''x'', Comment ''y''])
   \<and> length (element_attributes example_element) < 475254
   \<and> spec_qualified_name ` set (element_attributes example_element)
       = {''id'', ''xlink:href'', ''xml:lang'', ''xmlns'', ''xmlns:xlink''}"
proof -
  have small: "length (element_attributes example_element) < 475254"
    by (simp add: example_element_def)
  from walk_element_qualified_names [OF example_element_built] small
  have "fst ` set (attributes_of (Element ''svg''
         [(''id'', ''x''), (''xlink:href'', ''#a''), (''xml:lang'', ''en''), (''xmlns'', ''s''),
          (''xmlns:xlink'', ''l'')]
         [Text ''x'', Comment ''y'']))
      = spec_qualified_name ` set (element_attributes example_element)"
    by blast
  then have "spec_qualified_name ` set (element_attributes example_element)
      = {''id'', ''xlink:href'', ''xml:lang'', ''xmlns'', ''xmlns:xlink''}"
    by (simp only: attributes_of.simps) auto
  with example_element_built small show ?thesis by (intro conjI)
qed

text \<open>
  C2.  When \<open>xmlNewProp\<close> installs a name with a colon and does not return nil, the
  element has exactly one attribute of that name, it has the value, the names on the
  element are the names it had before and the new name, and no candidate dummy key is on
  the element that was not an attribute before.  The attributes of the element in a
  namespace are as before.
\<close>

theorem xmlNewProp_colon_name:
  assumes "CHR '':'' \<in> set (c_str name)"
    and "xmlNewProp nokogiri (XmlElement n as nas cs) name val = (r, node')"
    and "r \<noteq> Qnil"
  shows "length (filter (\<lambda>(k, v). k = c_str name) (attributes_of node')) = 1
       \<and> map_of (attributes_of node') (c_str name) = Some (c_str val)
       \<and> fst ` set (attributes_of node') = insert (c_str name) (fst ` set as)
       \<and> (\<forall>dummy \<in> set candidate_keys.
             dummy \<in> fst ` set (attributes_of node') \<longrightarrow> dummy \<in> fst ` set as)
       \<and> ns_attributes_of node' = nas"
proof -
  let ?q = "c_str name"
  from assms have node': "node'
      = XmlElement n (filter (\<lambda>(k, v). k \<noteq> ?q) as @ [(?q, c_str val)]) nas cs"
    by (auto simp: xmlNewProp_nokogiri split: if_splits)
  have keys: "fst ` set (attributes_of node') = insert ?q (fst ` set as)"
    using set_installed [of ?q "c_str val" as] assms(1)
    by (simp add: node' installed_def)
  have "dummy \<in> fst ` set as"
    if "dummy \<in> set candidate_keys" "dummy \<in> fst ` set (attributes_of node')" for dummy
  proof -
    from that(1) assms(1) have "dummy \<noteq> ?q"
      using candidate_key_no_colon by blast
    with that(2) keys show ?thesis by simp
  qed
  then have dummies: "\<forall>dummy \<in> set candidate_keys.
      dummy \<in> fst ` set (attributes_of node') \<longrightarrow> dummy \<in> fst ` set as"
    by blast
  have cnt: "length (filter (\<lambda>(k, v). k = ?q) (attributes_of node')) = 1"
    unfolding node' attributes_of.simps by (rule filter_installed_count)
  have val: "map_of (attributes_of node') ?q = Some (c_str val)"
    unfolding node' attributes_of.simps by (rule map_of_installed)
  have ns: "ns_attributes_of node' = nas"
    by (simp add: node')
  from cnt val keys dummies ns show ?thesis by (intro conjI)
qed

theorem xmlNewProp_colon_name_witness:
  "CHR '':'' \<in> set (c_str ''xml:lang'')
   \<and> xmlNewProp nokogiri (Element ''p'' [(''xml:lang'', ''de''), (''a'', ''1'')] []) ''xml:lang'' ''en''
       = (RAttr 1, Element ''p'' [(''a'', ''1''), (''xml:lang'', ''en'')] [])
   \<and> map_of [(''a'', ''1''), (''xml:lang'', ''en'')] ''xml:lang'' = Some ''en''
   \<and> ''b'' \<notin> fst ` set [(''a'', ''1''), (''xml:lang'', ''en'')]"
proof -
  let ?e = "Element ''p'' [(''xml:lang'', ''de''), (''a'', ''1'')] []"
  have c: "c_str ''xml:lang'' = ''xml:lang''" "c_str ''en'' = ''en''"
    by (simp_all add: c_str_def NUL_def)
  have colon: "CHR '':'' \<in> set (c_str ''xml:lang'')"
    unfolding c by simp
  have "card (fst ` set (attributes_of ?e)) < 475254"
    by (simp add: card_insert_if)
  then have "find_dummy_key nokogiri ?e \<noteq> None"
    by (rule find_dummy_key_nokogiri_small)
  then have run: "xmlNewProp nokogiri ?e ''xml:lang'' ''en''
       = (RAttr 1, Element ''p'' [(''a'', ''1''), (''xml:lang'', ''en'')] [])"
    by (simp add: xmlNewProp_nokogiri c)
  from xmlNewProp_colon_name [OF colon run] colon run show ?thesis
    by (simp add: c)
qed

section \<open>Order of attributes and children\<close>

text \<open>
  C3.  \<open>walk_tree\<close> makes no node of a DOCUMENT node, and \<open>walk_element\<close> does not
  skip such a child: the nil that stands for no node passes the test of line 216, so
  \<open>add_child\<close> is called with nil and raises.  An element with a text, a DOCUMENT node
  and a comment as children is not built.
\<close>

theorem walk_element_document_child:
  "walk_tree ops doc GUMBO_NODE_DOCUMENT = Inr None
   \<and> walk_children ops doc element (GUMBO_NODE_DOCUMENT # children) = Inl ArgumentError
   \<and> walk_element nokogiri (Document_new None None) document_child_element
       = Inl ArgumentError"
proof (intro conjI)
  show "walk_tree ops doc GUMBO_NODE_DOCUMENT = Inr None"
    by simp
  show "walk_children ops doc element (GUMBO_NODE_DOCUMENT # children) = Inl ArgumentError"
    by (rule walk_children_document)
  show "walk_element nokogiri (Document_new None None) document_child_element
       = Inl ArgumentError"
    by (simp add: document_child_element_def xmlNewDocNode_def xmlNewDocText_def)
qed

section \<open>The synthesized document\<close>




section \<open>Parser errors\<close>




section \<open>CDATA nodes\<close>

text \<open>
  C6, as amended.  For a payload whose C string is shorter than \<open>2^31\<close> bytes, the
  CDATA node \<open>walk_tree\<close> creates carries the payload read as a C string: its length
  is \<open>strlen\<close> of the payload, it holds no zero byte, and a payload without a zero
  byte is carried whole.
\<close>

theorem walk_tree_cdata_strlen:
  assumes "strlen text < 2 ^ 31"
  shows "walk_tree ops doc (GUMBO_NODE_CDATA text) = Inr (Some (CDATA (c_str text)))
       \<and> length (c_str text) = strlen text
       \<and> NUL \<notin> set (c_str text)
       \<and> (NUL \<notin> set text \<longrightarrow>
            walk_tree ops doc (GUMBO_NODE_CDATA text) = Inr (Some (CDATA text)))"
proof (intro conjI impI)
  show made: "walk_tree ops doc (GUMBO_NODE_CDATA text) = Inr (Some (CDATA (c_str text)))"
    using assms by (simp add: xmlNewCDataBlock_small)
  show "length (c_str text) = strlen text"
    by (simp add: strlen_def)
  show "NUL \<notin> set (c_str text)"
    by (rule c_str_no_NUL)
  assume "NUL \<notin> set text"
  then have "c_str text = text" by (rule c_str_id)
  with made show "walk_tree ops doc (GUMBO_NODE_CDATA text) = Inr (Some (CDATA text))"
    by (simp only:)
qed

theorem walk_tree_cdata_strlen_witness:
  "strlen ''x<y'' < 2 ^ 31
   \<and> NUL \<notin> set ''x<y''
   \<and> walk_tree nokogiri (Document_new None None) (GUMBO_NODE_CDATA ''x<y'')
       = Inr (Some (CDATA ''x<y''))"
proof -
  have short: "strlen ''x<y'' < 2 ^ 31" by (simp add: strlen_def c_str_def NUL_def)
  have free: "NUL \<notin> set ''x<y''" by (simp add: NUL_def)
  from walk_tree_cdata_strlen [OF short, of nokogiri "Document_new None None"] free
  have "walk_tree nokogiri (Document_new None None) (GUMBO_NODE_CDATA ''x<y'')
       = Inr (Some (CDATA ''x<y''))"
    by blast
  with short free show ?thesis by (intro conjI)
qed

text \<open>
  C6 as stated fails: the payload \<open>a\<close>, zero, \<open>b\<close> gives a CDATA node that holds
  \<open>a\<close> only.
\<close>

theorem walk_tree_cdata_truncated:
  "walk_tree nokogiri (Document_new None None)
     (GUMBO_NODE_CDATA [CHR ''a'', CHR 0x00, CHR ''b'']) = Inr (Some (CDATA ''a''))
   \<and> walk_tree nokogiri (Document_new None None)
     (GUMBO_NODE_CDATA [CHR ''a'', CHR 0x00, CHR ''b''])
       \<noteq> Inr (Some (CDATA [CHR ''a'', CHR 0x00, CHR ''b'']))"
  by (simp add: xmlNewCDataBlock_def rb_str_new_def strlen_def c_str_def NUL_def c_int_def
      Let_def)

section \<open>The dummy key\<close>

text \<open>
  C7, as amended.  \<open>find_dummy_key\<close> returns the first candidate key that is not on
  the element, in the order of \<open>candidate_keys\<close>: shorter keys first, and among the
  keys of one length the first character changing fastest.  There are 475254 candidate
  keys, all different.  It returns nil only when every candidate key is on the element,
  which on the modelled DOM takes at least 475254 attributes.
\<close>

theorem find_dummy_key_first_free_candidate:
  "find_dummy_key ops collection = find (\<lambda>k. \<not> key_p ops collection k) candidate_keys
   \<and> length candidate_keys = 475254
   \<and> distinct candidate_keys
   \<and> (find_dummy_key ops collection = None
        \<longrightarrow> (\<forall>k \<in> set candidate_keys. key_p ops collection k))
   \<and> (find_dummy_key nokogiri collection = None
        \<longrightarrow> 475254 \<le> card (fst ` set (attributes_of collection)))"
proof (intro conjI impI)
  show "find_dummy_key ops collection = find (\<lambda>k. \<not> key_p ops collection k) candidate_keys"
    by (rule find_dummy_key_candidates)
  show "length candidate_keys = 475254"
    by (rule length_candidate_keys)
  show "distinct candidate_keys"
    by (rule distinct_candidate_keys)
  show "\<forall>k \<in> set candidate_keys. key_p ops collection k"
    if "find_dummy_key ops collection = None"
    using that by (rule find_dummy_key_None)
  show "475254 \<le> card (fst ` set (attributes_of collection))"
    if "find_dummy_key nokogiri collection = None"
    using that by (rule find_dummy_key_None_nokogiri)
qed

theorem find_dummy_key_first_free_candidate_witness:
  "find_dummy_key nokogiri (Element ''p'' [(''a'', ''1''), (''c'', ''2'')] []) = Some ''b''
   \<and> find_dummy_key nokogiri full_element = None
   \<and> 475254 \<le> card (fst ` set (attributes_of full_element))"
proof -
  let ?e = "Element ''p'' [(''a'', ''1''), (''c'', ''2'')] []"
  have "find (\<lambda>k. \<not> key_p nokogiri ?e k) (keys_of_length 1) = Some ''b''"
    by (simp add: alphabet_def nokogiri_def)
  then have "find (\<lambda>k. \<not> key_p nokogiri ?e k) candidate_keys = Some ''b''"
    by (rule find_candidate_keys_1)
  with find_dummy_key_first_free_candidate [of nokogiri ?e]
  have free: "find_dummy_key nokogiri ?e = Some ''b''"
    by (simp only:)
  from find_dummy_key_first_free_candidate [of nokogiri full_element]
  have "find_dummy_key nokogiri full_element = None
      \<longrightarrow> 475254 \<le> card (fst ` set (attributes_of full_element))"
    by (elim conjE)
  with find_dummy_key_full_element
  have "475254 \<le> card (fst ` set (attributes_of full_element))"
    by (rule rev_mp)
  with free find_dummy_key_full_element show ?thesis by (intro conjI)
qed

text \<open>
  C7 as stated fails: the order is not lexicographic.  On an element that has \<open>a\<close>
  to \<open>z\<close> and \<open>aa\<close>, the key returned is \<open>ba\<close>, although \<open>ab\<close> is free, has
  the same length and comes before \<open>ba\<close> lexicographically.
\<close>

theorem find_dummy_key_not_lexicographic:
  "find_dummy_key nokogiri crowded_element = Some ''ba''
   \<and> \<not> key_p nokogiri crowded_element ''ab''
   \<and> length ''ab'' = length ''ba''
   \<and> (''ab'', ''ba'') \<in> lexord {(c, d). (of_char c :: nat) < of_char d}"
proof -
  let ?P = "\<lambda>k. \<not> key_p nokogiri crowded_element k"
  obtain ks where ks: "keys_of_length 2 = ''aa'' # ''ba'' # ks"
    using keys_of_length_2_prefix by blast
  have one: "find ?P (keys_of_length 1) = None"
    by (simp add: alphabet_def nokogiri_def crowded_element_def)
  have two: "find ?P (keys_of_length 2) = Some ''ba''"
    unfolding ks by (simp add: alphabet_def nokogiri_def crowded_element_def)
  have "find_dummy_key nokogiri crowded_element = Some ''ba''"
    unfolding find_dummy_key_candidates using one two by (rule find_candidate_keys_2)
  moreover have "\<not> key_p nokogiri crowded_element ''ab''"
    by (simp add: alphabet_def nokogiri_def crowded_element_def)
  moreover have "(''ab'', ''ba'') \<in> lexord {(c, d). (of_char c :: nat) < of_char d}"
    by simp
  ultimately show ?thesis by simp
qed

section \<open>Failure while installing a name with a colon\<close>

text \<open>
  C8, as amended.  For a name with a colon and every DOM layer: when no dummy key is
  left, \<open>xmlNewProp\<close> returns nil and the element is unchanged; when the setter
  returns nil for the dummy, \<open>xmlNewProp\<close> returns nil with the element as the setter
  left it; when the lookup of the dummy returns nil, \<open>xmlNewProp\<close> returns nil with
  the element as the setter and the removal of the real name left it.  After an
  exhaustion the attribute loop goes on with the same element and the remaining
  attributes.  On the modelled DOM a nil result leaves the element unchanged and takes
  at least 475254 attributes.
\<close>

theorem xmlNewProp_failure_paths:
  assumes "CHR '':'' \<in> set (c_str name)"
  shows "(find_dummy_key ops node = None \<longrightarrow> xmlNewProp ops node name val = (Qnil, node))
    \<and> (\<forall>dummy node1.
          find_dummy_key ops node = Some dummy
          \<and> set_attribute ops node dummy (c_str val) = (Qnil, node1)
          \<longrightarrow> xmlNewProp ops node name val = (Qnil, node1))
    \<and> (\<forall>dummy r node1.
          find_dummy_key ops node = Some dummy
          \<and> set_attribute ops node dummy (c_str val) = (r, node1) \<and> r \<noteq> Qnil
          \<and> attribute ops (remove_attribute ops node1 (c_str name)) dummy = Qnil
          \<longrightarrow> xmlNewProp ops node name val = (Qnil, remove_attribute ops node1 (c_str name)))
    \<and> (\<forall>attr attrs.
          find_dummy_key ops node = None \<and> CHR '':'' \<in> set (spec_qualified_name attr)
          \<longrightarrow> walk_attributes ops node (attr # attrs) = walk_attributes ops node attrs)
    \<and> (\<forall>n as nas cs.
          node = XmlElement n as nas cs \<and> fst (xmlNewProp nokogiri node name val) = Qnil
          \<longrightarrow> snd (xmlNewProp nokogiri node name val) = node
              \<and> 475254 \<le> card (fst ` set as))"
proof (intro conjI allI impI)
  show "xmlNewProp ops node name val = (Qnil, node)" if "find_dummy_key ops node = None"
    using that by (simp add: xmlNewProp_colon [OF assms])
  show "xmlNewProp ops node name val = (Qnil, node1)"
    if "find_dummy_key ops node = Some dummy
          \<and> set_attribute ops node dummy (c_str val) = (Qnil, node1)" for dummy node1
    using that by (simp add: xmlNewProp_colon [OF assms])
  show "xmlNewProp ops node name val = (Qnil, remove_attribute ops node1 (c_str name))"
    if "find_dummy_key ops node = Some dummy
          \<and> set_attribute ops node dummy (c_str val) = (r, node1) \<and> r \<noteq> Qnil
          \<and> attribute ops (remove_attribute ops node1 (c_str name)) dummy = Qnil"
    for dummy r node1
    using that by (simp add: xmlNewProp_colon [OF assms])
  show "walk_attributes ops node (attr # attrs) = walk_attributes ops node attrs"
    if "find_dummy_key ops node = None \<and> CHR '':'' \<in> set (spec_qualified_name attr)"
    for attr attrs
  proof -
    from that have "CHR '':'' \<in> set (c_str (spec_qualified_name attr))"
      by (simp add: c_str_id [OF qualified_name_no_NUL])
    from xmlNewProp_colon [OF this, of ops node "attr_value attr"] that
    have "install_attribute ops node attr = (Qnil, node)"
      by (simp add: install_attribute_qualified_name)
    then show ?thesis by simp
  qed
  show "snd (xmlNewProp nokogiri node name val) = node"
    if "node = XmlElement n as nas cs \<and> fst (xmlNewProp nokogiri node name val) = Qnil"
    for n as nas cs
    using that assms by (auto simp: xmlNewProp_nokogiri split: if_splits)
  show "475254 \<le> card (fst ` set as)"
    if "node = XmlElement n as nas cs \<and> fst (xmlNewProp nokogiri node name val) = Qnil"
    for n as nas cs
  proof -
    from that assms have "find_dummy_key nokogiri (XmlElement n as nas cs) = None"
      by (auto simp: xmlNewProp_nokogiri split: if_splits)
    from find_dummy_key_None_nokogiri [OF this] show ?thesis by simp
  qed
qed

theorem xmlNewProp_failure_paths_witness:
  "CHR '':'' \<in> set (c_str ''xml:lang'')
   \<and> find_dummy_key nokogiri full_element = None
   \<and> xmlNewProp nokogiri full_element ''xml:lang'' ''en'' = (Qnil, full_element)
   \<and> xmlNewProp (nokogiri\<lparr>set_attribute := \<lambda>node k v. (Qnil, node)\<rparr>)
        (Element ''p'' [(''xml:lang'', ''de'')] []) ''xml:lang'' ''en''
       = (Qnil, Element ''p'' [(''xml:lang'', ''de'')] [])"
proof -
  let ?ops = "nokogiri\<lparr>set_attribute := \<lambda>node k v. (Qnil, node)\<rparr>"
  let ?e = "Element ''p'' [(''xml:lang'', ''de'')] []"
  have c: "c_str ''xml:lang'' = ''xml:lang''" "c_str ''en'' = ''en''"
    by (simp_all add: c_str_def NUL_def)
  have colon: "CHR '':'' \<in> set (c_str ''xml:lang'')"
    unfolding c by simp
  have "find (\<lambda>k. \<not> key_p ?ops ?e k) (keys_of_length 1) = Some ''a''"
    by (simp add: alphabet_def nokogiri_def)
  then have "find (\<lambda>k. \<not> key_p ?ops ?e k) candidate_keys = Some ''a''"
    by (rule find_candidate_keys_1)
  then have d: "find_dummy_key ?ops ?e = Some ''a''"
    by (simp only: find_dummy_key_candidates)
  have s: "set_attribute ?ops ?e ''a'' (c_str ''en'') = (Qnil, ?e)"
    by simp
  note full = xmlNewProp_failure_paths [OF colon, of nokogiri full_element "''en''"]
  from full have "find_dummy_key nokogiri full_element = None
      \<longrightarrow> xmlNewProp nokogiri full_element ''xml:lang'' ''en'' = (Qnil, full_element)"
    by (rule conjunct1)
  with find_dummy_key_full_element
  have one: "xmlNewProp nokogiri full_element ''xml:lang'' ''en'' = (Qnil, full_element)"
    by (rule rev_mp)
  note failing = xmlNewProp_failure_paths [OF colon, of ?ops ?e "''en''"]
  from failing have "\<forall>dummy node1.
          find_dummy_key ?ops ?e = Some dummy
          \<and> set_attribute ?ops ?e dummy (c_str ''en'') = (Qnil, node1)
          \<longrightarrow> xmlNewProp ?ops ?e ''xml:lang'' ''en'' = (Qnil, node1)"
    by (rule conjunct1 [OF conjunct2])
  then have "find_dummy_key ?ops ?e = Some ''a''
          \<and> set_attribute ?ops ?e ''a'' (c_str ''en'') = (Qnil, ?e)
          \<longrightarrow> xmlNewProp ?ops ?e ''xml:lang'' ''en'' = (Qnil, ?e)"
    by (elim allE)
  with d s have two: "xmlNewProp ?ops ?e ''xml:lang'' ''en'' = (Qnil, ?e)"
    by (simp only: simp_thms)
  from colon find_dummy_key_full_element one two show ?thesis by (intro conjI)
qed

text \<open>
  C8 as stated fails for the lookup: with a DOM layer whose \<open>attribute\<close> returns nil,
  installing \<open>xml:lang\<close> on an element that has \<open>xml:lang\<close> returns nil and leaves
  the element with the dummy \<open>a\<close> and without \<open>xml:lang\<close>.
\<close>

theorem xmlNewProp_failed_lookup_changes_element:
  "xmlNewProp (nokogiri\<lparr>attribute := \<lambda>node k. Qnil\<rparr>)
     (Element ''p'' [(''xml:lang'', ''de'')] []) ''xml:lang'' ''en''
     = (Qnil, Element ''p'' [(''a'', ''en'')] [])
   \<and> Element ''p'' [(''a'', ''en'')] [] \<noteq> Element ''p'' [(''xml:lang'', ''de'')] []"
proof -
  let ?ops = "nokogiri\<lparr>attribute := \<lambda>node k. Qnil\<rparr>"
  let ?e = "Element ''p'' [(''xml:lang'', ''de'')] []"
  have c: "c_str ''xml:lang'' = ''xml:lang''" "c_str ''en'' = ''en''"
    by (simp_all add: c_str_def NUL_def)
  have colon: "CHR '':'' \<in> set (c_str ''xml:lang'')"
    unfolding c by simp
  have "find (\<lambda>k. \<not> key_p ?ops ?e k) (keys_of_length 1) = Some ''a''"
    by (simp add: alphabet_def nokogiri_def)
  then have "find (\<lambda>k. \<not> key_p ?ops ?e k) candidate_keys = Some ''a''"
    by (rule find_candidate_keys_1)
  then have d: "find_dummy_key ?ops ?e = Some ''a''"
    by (simp only: find_dummy_key_candidates)
  have "xmlNewProp ?ops ?e ''xml:lang'' ''en'' = (Qnil, Element ''p'' [(''a'', ''en'')] [])"
    unfolding xmlNewProp_colon [OF colon] d c
    by (simp add: nokogiri_def)
  then show ?thesis by simp
qed

section \<open>No errors\<close>

text \<open>
  C9.  When the parser reports no error, the document \<open>parse\<close> returns has no
  \<open>@errors\<close>: the instance variable is as the constructor left it, unset.
\<close>

theorem parse_no_errors_unset:
  assumes "errors (gumbo max_errors input) = []"
    and "parse ops gumbo fmt input url max_errors = Inr rdoc"
  shows "iv_errors rdoc = None"
  using parse_iv_errors [OF assms(2)] assms(1) by simp

theorem parse_no_errors_unset_witness:
  "errors (example_output []) = []
   \<and> (\<exists>rdoc. parse nokogiri (\<lambda>m s. example_output []) example_message
                ''<!DOCTYPE html><p class=a:b>hi'' ''doc.html'' 0 = Inr rdoc
            \<and> iv_errors rdoc = None)"
proof -
  have none: "errors (example_output []) = []"
    by (simp add: example_output_def)
  obtain rdoc where r: "parse nokogiri (\<lambda>m s. example_output []) example_message
      ''<!DOCTYPE html><p class=a:b>hi'' ''doc.html'' 0 = Inr rdoc"
    using example_parse_returns by blast
  from parse_no_errors_unset [OF _ r] none have "iv_errors rdoc = None" by simp
  with none r show ?thesis by blast
qed

section \<open>The assertion of the document synthesizer\<close>




end
